theory Spec2Isabelle
  imports Main "HOL-Library.Multiset"
begin

unbundle bit_operations_syntax

section \<open>Machine integers\<close>

text \<open>
  The C++ type \<open>int\<close> is modelled by \<open>int\<close>. The id counters and the table sizes can
  jump (an explicit index, a doubling), so their arithmetic is wrapped to 32 bits, two's
  complement: \<open>int32\<close>. The degree counters change by one for each half-edge that exists
  in memory and are left unwrapped.
\<close>

definition int32 :: "int \<Rightarrow> int" where
  "int32 x = (x + 2147483648) mod 4294967296 - 2147483648"

text \<open>\<open>x << 1\<close> on a 32-bit int.\<close>

definition shl1 :: "int \<Rightarrow> int" where
  "shl1 x = int32 (2 * x)"

text \<open>
  \<open>Graph::nextPower2\<close>: \<open>while (start <= idCount) start <<= 1; return start;\<close>.
  The loop does not end when the shift wraps to a value that is not positive, so not
  returning is the value \<open>None\<close>.
\<close>

partial_function (option) nextPower2 :: "int \<Rightarrow> int \<Rightarrow> int option" where
  "nextPower2 start idCount =
     (if start \<le> idCount then nextPower2 (shl1 start) idCount else Some start)"

definition MIN_NODE_TABLE_SIZE :: int where
  "MIN_NODE_TABLE_SIZE = 16"

definition MIN_EDGE_TABLE_SIZE :: int where
  "MIN_EDGE_TABLE_SIZE = 16"

section \<open>Nodes, edges, adjacency entries\<close>

text \<open>
  Pointers are addresses (\<open>nat\<close>) into three memories, one for each element class;
  \<open>nullptr\<close> is the address 0 and no element lives there.
\<close>

type_synonym node = nat
type_synonym edge = nat
type_synonym adjEntry = nat
type_synonym observer = nat
type_synonym arrayRef = nat

abbreviation (input) nullptr :: nat where
  "nullptr \<equiv> 0"

record NodeElement =
  n_index :: int
  m_indeg :: int
  m_outdeg :: int
  adjEdges :: "adjEntry list"

record EdgeElement =
  e_index :: int
  m_src :: node
  m_tgt :: node
  m_adjSrc :: adjEntry
  m_adjTgt :: adjEntry

record AdjElement =
  m_twin :: adjEntry
  m_edge :: edge
  m_node :: node
  m_id :: int

datatype Direction = before | after

text \<open>
  Modelled from the spec: the registered auxiliary arrays (NodeArrayBase, EdgeArrayBase,
  AdjEntryArrayBase) are declared outside the source file. An array has a capacity and
  is attached to its graph or detached; \<open>enlargeTable\<close> sets the capacity to the new
  table size, \<open>disconnect\<close> detaches the array.
\<close>

record ArrayBase =
  a_size :: int
  a_attached :: bool

datatype arrayKind = NodeArrayKind | EdgeArrayKind | AdjEntryArrayKind

text \<open>
  The calls the graph makes on its registered arrays and observers. Each call is logged
  together with the structure of the graph at the moment of the call: what the callee
  sees when it queries the graph.
\<close>

datatype call =
    nodeAdded observer node
  | nodeDeleted observer node
  | edgeAdded observer edge
  | edgeDeleted observer edge
  | enlargeTableCall arrayKind arrayRef int
  | resetIndexCall arrayRef int int
  | disconnectCall arrayKind arrayRef
  | cleared observer
  | reInit observer
  | reinitCall arrayKind arrayRef int

record Structure =
  s_nodes :: "node list"
  s_edges :: "edge list"
  s_hiddenEdges :: "edge list"
  s_nodeMem :: "node \<Rightarrow> NodeElement"
  s_edgeMem :: "edge \<Rightarrow> EdgeElement"
  s_adjMem :: "adjEntry \<Rightarrow> AdjElement"

record Graph =
  nodes :: "node list"
  edges :: "edge list"
  m_hiddenEdges :: "edge list"
  nodeMem :: "node \<Rightarrow> NodeElement"
  edgeMem :: "edge \<Rightarrow> EdgeElement"
  adjMem :: "adjEntry \<Rightarrow> AdjElement"
  nextNode :: nat
  nextEdge :: nat
  nextAdj :: nat
  m_nodeIdCount :: int
  m_edgeIdCount :: int
  m_nodeArrayTableSize :: int
  m_edgeArrayTableSize :: int
  m_regNodeArrays :: "arrayRef list"
  m_regEdgeArrays :: "arrayRef list"
  m_regAdjArrays :: "arrayRef list"
  m_regStructures :: "observer list"
  arrMem :: "arrayKind \<Rightarrow> arrayRef \<Rightarrow> ArrayBase"
  obsAttached :: "observer \<Rightarrow> bool"
  calls :: "(call \<times> Structure) list"

definition snapshot :: "Graph \<Rightarrow> Structure" where
  "snapshot g = \<lparr> s_nodes = nodes g, s_edges = edges g, s_hiddenEdges = m_hiddenEdges g,
     s_nodeMem = nodeMem g, s_edgeMem = edgeMem g, s_adjMem = adjMem g \<rparr>"

text \<open>\<open>Graph::Graph()\<close>. Nothing is registered yet and the memories hold no element.\<close>

definition emptyGraph :: Graph where
  "emptyGraph = \<lparr> nodes = [], edges = [], m_hiddenEdges = [],
     nodeMem = (\<lambda>_. \<lparr> n_index = 0, m_indeg = 0, m_outdeg = 0, adjEdges = [] \<rparr>),
     edgeMem = (\<lambda>_. \<lparr> e_index = 0, m_src = nullptr, m_tgt = nullptr,
                       m_adjSrc = nullptr, m_adjTgt = nullptr \<rparr>),
     adjMem = (\<lambda>_. \<lparr> m_twin = nullptr, m_edge = nullptr, m_node = nullptr, m_id = 0 \<rparr>),
     nextNode = 1, nextEdge = 1, nextAdj = 1,
     m_nodeIdCount = 0, m_edgeIdCount = 0,
     m_nodeArrayTableSize = MIN_NODE_TABLE_SIZE,
     m_edgeArrayTableSize = MIN_EDGE_TABLE_SIZE,
     m_regNodeArrays = [], m_regEdgeArrays = [], m_regAdjArrays = [],
     m_regStructures = [],
     arrMem = (\<lambda>_ _. \<lparr> a_size = 0, a_attached = False \<rparr>),
     obsAttached = (\<lambda>_. False),
     calls = [] \<rparr>"

subsection \<open>Calls on arrays and observers\<close>

definition notify :: "call \<Rightarrow> Graph \<Rightarrow> Graph" where
  "notify c g = g\<lparr> calls := calls g @ [(c, snapshot g)] \<rparr>"

definition updArray :: "arrayKind \<Rightarrow> arrayRef \<Rightarrow> (ArrayBase \<Rightarrow> ArrayBase) \<Rightarrow> Graph \<Rightarrow> Graph" where
  "updArray k a f g = g\<lparr> arrMem := (arrMem g)(k := (arrMem g k)(a := f (arrMem g k a))) \<rparr>"

definition enlargeTable :: "arrayKind \<Rightarrow> int \<Rightarrow> arrayRef \<Rightarrow> Graph \<Rightarrow> Graph" where
  "enlargeTable k newSize a g =
     notify (enlargeTableCall k a newSize) (updArray k a (\<lambda>t. t\<lparr> a_size := newSize \<rparr>) g)"

definition disconnect :: "arrayKind \<Rightarrow> arrayRef \<Rightarrow> Graph \<Rightarrow> Graph" where
  "disconnect k a g =
     notify (disconnectCall k a) (updArray k a (\<lambda>t. t\<lparr> a_attached := False \<rparr>) g)"

text \<open>\<open>Graph::resetAdjEntryIndex\<close>\<close>

definition resetAdjEntryIndex :: "int \<Rightarrow> int \<Rightarrow> Graph \<Rightarrow> Graph" where
  "resetAdjEntryIndex newIndex oldIndex g =
     fold (\<lambda>aab. notify (resetIndexCall aab newIndex oldIndex)) (m_regAdjArrays g) g"

text \<open>
  \<open>Graph::registerArray\<close> and \<open>Graph::registerStructure\<close> push the pointer at the end
  of the registry. Modelled from the spec: the array that registers is built with the
  capacity of the current table and attached (its constructor is not in the source
  file); an observer that registers is attached.
\<close>

definition registerNodeArray :: "arrayRef \<Rightarrow> Graph \<Rightarrow> Graph" where
  "registerNodeArray a g =
     updArray NodeArrayKind a (\<lambda>_. \<lparr> a_size = m_nodeArrayTableSize g, a_attached = True \<rparr>)
       (g\<lparr> m_regNodeArrays := m_regNodeArrays g @ [a] \<rparr>)"

definition registerEdgeArray :: "arrayRef \<Rightarrow> Graph \<Rightarrow> Graph" where
  "registerEdgeArray a g =
     updArray EdgeArrayKind a (\<lambda>_. \<lparr> a_size = m_edgeArrayTableSize g, a_attached = True \<rparr>)
       (g\<lparr> m_regEdgeArrays := m_regEdgeArrays g @ [a] \<rparr>)"

definition registerAdjArray :: "arrayRef \<Rightarrow> Graph \<Rightarrow> Graph" where
  "registerAdjArray a g =
     updArray AdjEntryArrayKind a
       (\<lambda>_. \<lparr> a_size = shl1 (m_edgeArrayTableSize g), a_attached = True \<rparr>)
       (g\<lparr> m_regAdjArrays := m_regAdjArrays g @ [a] \<rparr>)"

definition registerStructure :: "observer \<Rightarrow> Graph \<Rightarrow> Graph" where
  "registerStructure obs g =
     g\<lparr> m_regStructures := m_regStructures g @ [obs],
        obsAttached := (obsAttached g)(obs := True) \<rparr>"

section \<open>Creating nodes\<close>

text \<open>\<open>OGDF_NEW NodeElement(id)\<close>: a fresh address, degree zero, an empty rotation.\<close>

definition allocNode :: "int \<Rightarrow> Graph \<Rightarrow> Graph \<times> node" where
  "allocNode idx g =
     (let v = nextNode g in
      (g\<lparr> nextNode := Suc v,
          nodeMem := (nodeMem g)(v := \<lparr> n_index = idx, m_indeg = 0, m_outdeg = 0,
                                       adjEdges = [] \<rparr>) \<rparr>, v))"

text \<open>The tail of \<open>newNode\<close>: \<open>nodes.pushBack(v)\<close>, then every observer is told.\<close>

definition linkNode :: "node \<Rightarrow> Graph \<Rightarrow> Graph" where
  "linkNode v g =
     (let g1 = g\<lparr> nodes := nodes g @ [v] \<rparr>
      in fold (\<lambda>obs. notify (nodeAdded obs v)) (m_regStructures g1) g1)"

definition growNodeTable :: "int \<Rightarrow> Graph \<Rightarrow> Graph" where
  "growNodeTable newSize g =
     (let g1 = g\<lparr> m_nodeArrayTableSize := newSize \<rparr>
      in fold (enlargeTable NodeArrayKind (m_nodeArrayTableSize g1)) (m_regNodeArrays g1) g1)"

text \<open>\<open>node Graph::newNode()\<close>\<close>

definition newNode :: "Graph \<Rightarrow> Graph \<times> node" where
  "newNode g =
     (let g1 = (if m_nodeIdCount g = m_nodeArrayTableSize g
                then growNodeTable (shl1 (m_nodeArrayTableSize g)) g else g);
          (g2, v) = allocNode (m_nodeIdCount g1) g1;
          g3 = g2\<lparr> m_nodeIdCount := int32 (m_nodeIdCount g2 + 1) \<rparr>
      in (linkNode v g3, v))"

text \<open>\<open>node Graph::newNode(int index)\<close>; \<open>None\<close> when \<open>nextPower2\<close> does not return.\<close>

definition newNode_index :: "int \<Rightarrow> Graph \<Rightarrow> (Graph \<times> node) option" where
  "newNode_index index g =
     (case (if index \<ge> m_nodeIdCount g then
              (let g1 = g\<lparr> m_nodeIdCount := int32 (index + 1) \<rparr> in
               if index \<ge> m_nodeArrayTableSize g1 then
                 (case nextPower2 (m_nodeArrayTableSize g1) index of
                    None \<Rightarrow> None
                  | Some t \<Rightarrow> Some (growNodeTable t g1))
               else Some g1)
            else Some g) of
        None \<Rightarrow> None
      | Some g2 \<Rightarrow>
          (let (g3, v) = allocNode index g2 in Some (linkNode v g3, v)))"

section \<open>The adjacency lists\<close>

text \<open>
  Modelled from the spec: the intrusive list class (GraphList) is declared outside the
  source file. A rotation is the list of its elements in order. \<open>pushBack\<close> appends,
  \<open>del\<close> and \<open>delPure\<close> take the element out, \<open>insertBefore\<close> and \<open>insertAfter\<close> put
  an element next to one that is in the list, \<open>move\<close> takes an element out of one list
  and puts it into another.
\<close>

definition pushBack :: "'a \<Rightarrow> 'a list \<Rightarrow> 'a list" where
  "pushBack x xs = xs @ [x]"

definition del :: "'a \<Rightarrow> 'a list \<Rightarrow> 'a list" where
  "del x xs = remove1 x xs"

fun insertBefore :: "'a \<Rightarrow> 'a \<Rightarrow> 'a list \<Rightarrow> 'a list" where
  "insertBefore x y [] = [x]"
| "insertBefore x y (z # zs) = (if z = y then x # z # zs else z # insertBefore x y zs)"

fun insertAfter :: "'a \<Rightarrow> 'a \<Rightarrow> 'a list \<Rightarrow> 'a list" where
  "insertAfter x y [] = [x]"
| "insertAfter x y (z # zs) = (if z = y then z # x # zs else z # insertAfter x y zs)"

definition insertAt :: "'a \<Rightarrow> 'a \<Rightarrow> Direction \<Rightarrow> 'a list \<Rightarrow> 'a list" where
  "insertAt x y dir xs = (case dir of before \<Rightarrow> insertBefore x y xs | after \<Rightarrow> insertAfter x y xs)"

text \<open>The element after \<open>x\<close> in the list, \<open>nullptr\<close> when \<open>x\<close> is the last one.\<close>

fun succ_in :: "nat list \<Rightarrow> nat \<Rightarrow> nat" where
  "succ_in [] x = nullptr"
| "succ_in [y] x = nullptr"
| "succ_in (y # z # zs) x = (if y = x then z else succ_in (z # zs) x)"

definition head :: "nat list \<Rightarrow> nat" where
  "head xs = (case xs of [] \<Rightarrow> nullptr | x # _ \<Rightarrow> x)"

subsection \<open>Memory updates and accessors\<close>

definition updNode :: "node \<Rightarrow> (NodeElement \<Rightarrow> NodeElement) \<Rightarrow> Graph \<Rightarrow> Graph" where
  "updNode v f g = g\<lparr> nodeMem := (nodeMem g)(v := f (nodeMem g v)) \<rparr>"

definition updEdge :: "edge \<Rightarrow> (EdgeElement \<Rightarrow> EdgeElement) \<Rightarrow> Graph \<Rightarrow> Graph" where
  "updEdge e f g = g\<lparr> edgeMem := (edgeMem g)(e := f (edgeMem g e)) \<rparr>"

definition updAdj :: "adjEntry \<Rightarrow> (AdjElement \<Rightarrow> AdjElement) \<Rightarrow> Graph \<Rightarrow> Graph" where
  "updAdj a f g = g\<lparr> adjMem := (adjMem g)(a := f (adjMem g a)) \<rparr>"

definition source :: "Graph \<Rightarrow> edge \<Rightarrow> node" where
  "source g e = m_src (edgeMem g e)"

definition target :: "Graph \<Rightarrow> edge \<Rightarrow> node" where
  "target g e = m_tgt (edgeMem g e)"

definition adjSource :: "Graph \<Rightarrow> edge \<Rightarrow> adjEntry" where
  "adjSource g e = m_adjSrc (edgeMem g e)"

definition adjTarget :: "Graph \<Rightarrow> edge \<Rightarrow> adjEntry" where
  "adjTarget g e = m_adjTgt (edgeMem g e)"

definition isSelfLoop :: "Graph \<Rightarrow> edge \<Rightarrow> bool" where
  "isSelfLoop g e = (m_src (edgeMem g e) = m_tgt (edgeMem g e))"

definition theEdge :: "Graph \<Rightarrow> adjEntry \<Rightarrow> edge" where
  "theEdge g adj = m_edge (adjMem g adj)"

definition theNode :: "Graph \<Rightarrow> adjEntry \<Rightarrow> node" where
  "theNode g adj = m_node (adjMem g adj)"

definition twin :: "Graph \<Rightarrow> adjEntry \<Rightarrow> adjEntry" where
  "twin g adj = m_twin (adjMem g adj)"

definition twinNode :: "Graph \<Rightarrow> adjEntry \<Rightarrow> node" where
  "twinNode g adj = m_node (adjMem g (m_twin (adjMem g adj)))"

definition indeg :: "Graph \<Rightarrow> node \<Rightarrow> int" where
  "indeg g v = m_indeg (nodeMem g v)"

definition outdeg :: "Graph \<Rightarrow> node \<Rightarrow> int" where
  "outdeg g v = m_outdeg (nodeMem g v)"

definition degree :: "Graph \<Rightarrow> node \<Rightarrow> int" where
  "degree g v = m_indeg (nodeMem g v) + m_outdeg (nodeMem g v)"

definition rotation :: "Graph \<Rightarrow> node \<Rightarrow> adjEntry list" where
  "rotation g v = adjEdges (nodeMem g v)"

text \<open>\<open>AdjElement::cyclicSucc\<close>: the successor, or the first entry of the node at the end.\<close>

definition cyclicSucc :: "Graph \<Rightarrow> adjEntry \<Rightarrow> adjEntry" where
  "cyclicSucc g adj =
     (let xs = adjEdges (nodeMem g (m_node (adjMem g adj))) in
      if succ_in xs adj \<noteq> nullptr then succ_in xs adj else head xs)"

section \<open>Creating edges\<close>

text \<open>\<open>OGDF_NEW AdjElement(v)\<close>: twin and edge are null, the index is 0.\<close>

definition allocAdj :: "node \<Rightarrow> Graph \<Rightarrow> Graph \<times> adjEntry" where
  "allocAdj v g =
     (let a = nextAdj g in
      (g\<lparr> nextAdj := Suc a,
          adjMem := (adjMem g)(a := \<lparr> m_twin = nullptr, m_edge = nullptr, m_node = v,
                                     m_id = 0 \<rparr>) \<rparr>, a))"

text \<open>\<open>OGDF_NEW EdgeElement(v, w, adjSrc, adjTgt, id)\<close>\<close>

definition allocEdge :: "node \<Rightarrow> node \<Rightarrow> adjEntry \<Rightarrow> adjEntry \<Rightarrow> int \<Rightarrow> Graph \<Rightarrow> Graph \<times> edge" where
  "allocEdge v w adjSrc adjTgt idx g =
     (let e = nextEdge g in
      (g\<lparr> nextEdge := Suc e,
          edgeMem := (edgeMem g)(e := \<lparr> e_index = idx, m_src = v, m_tgt = w,
                                       m_adjSrc = adjSrc, m_adjTgt = adjTgt \<rparr>) \<rparr>, e))"

definition growEdgeTable :: "int \<Rightarrow> Graph \<Rightarrow> Graph" where
  "growEdgeTable newSize g =
     (let g1 = g\<lparr> m_edgeArrayTableSize := newSize \<rparr>;
          g2 = fold (enlargeTable EdgeArrayKind (m_edgeArrayTableSize g1)) (m_regEdgeArrays g1) g1
      in fold (enlargeTable AdjEntryArrayKind (shl1 (m_edgeArrayTableSize g2))) (m_regAdjArrays g2) g2)"

text \<open>The tail of the edge constructors: \<open>edges.pushBack(e)\<close>, then every observer is told.\<close>

definition linkEdge :: "edge \<Rightarrow> Graph \<Rightarrow> Graph" where
  "linkEdge e g =
     (let g1 = g\<lparr> edges := edges g @ [e] \<rparr>
      in fold (\<lambda>obs. notify (edgeAdded obs e)) (m_regStructures g1) g1)"

text \<open>\<open>edge Graph::createEdgeElement(node v, node w, adjEntry adjSrc, adjEntry adjTgt)\<close>\<close>

definition createEdgeElement :: "node \<Rightarrow> node \<Rightarrow> adjEntry \<Rightarrow> adjEntry \<Rightarrow> Graph \<Rightarrow> Graph \<times> edge" where
  "createEdgeElement v w adjSrc adjTgt g =
     (let g1 = (if m_edgeIdCount g = m_edgeArrayTableSize g
                then growEdgeTable (shl1 (m_edgeArrayTableSize g)) g else g);
          g2 = updAdj adjSrc (\<lambda>a. a\<lparr> m_id := shl1 (m_edgeIdCount g1) \<rparr>) g1;
          g3 = updAdj adjTgt (\<lambda>a. a\<lparr> m_id := m_id (adjMem g2 adjSrc) OR 1 \<rparr>) g2;
          (g4, e) = allocEdge v w adjSrc adjTgt (m_edgeIdCount g3) g3;
          g5 = g4\<lparr> m_edgeIdCount := int32 (m_edgeIdCount g4 + 1) \<rparr>
      in (linkEdge e g5, e))"

text \<open>
  The common head of \<open>newEdge(v, w)\<close> and \<open>newEdge(v, w, index)\<close>: the two adjacency
  entries are created, appended to the rotations of \<open>v\<close> and \<open>w\<close> and made twins.
\<close>

definition newAdjPair :: "node \<Rightarrow> node \<Rightarrow> Graph \<Rightarrow> Graph \<times> adjEntry \<times> adjEntry" where
  "newAdjPair v w g =
     (let (g1, adjSrc) = allocAdj v g;
          g2 = updNode v (\<lambda>n. n\<lparr> adjEdges := pushBack adjSrc (adjEdges n) \<rparr>) g1;
          g3 = updNode v (\<lambda>n. n\<lparr> m_outdeg := m_outdeg n + 1 \<rparr>) g2;
          (g4, adjTgt) = allocAdj w g3;
          g5 = updNode w (\<lambda>n. n\<lparr> adjEdges := pushBack adjTgt (adjEdges n) \<rparr>) g4;
          g6 = updNode w (\<lambda>n. n\<lparr> m_indeg := m_indeg n + 1 \<rparr>) g5;
          g7 = updAdj adjSrc (\<lambda>a. a\<lparr> m_twin := adjTgt \<rparr>) g6;
          g8 = updAdj adjTgt (\<lambda>a. a\<lparr> m_twin := adjSrc \<rparr>) g7
      in (g8, adjSrc, adjTgt))"

text \<open>\<open>adjSrc->m_edge = adjTgt->m_edge = e\<close>\<close>

definition setEdgeOfPair :: "adjEntry \<Rightarrow> adjEntry \<Rightarrow> edge \<Rightarrow> Graph \<Rightarrow> Graph" where
  "setEdgeOfPair adjSrc adjTgt e g =
     updAdj adjSrc (\<lambda>a. a\<lparr> m_edge := e \<rparr>) (updAdj adjTgt (\<lambda>a. a\<lparr> m_edge := e \<rparr>) g)"

text \<open>\<open>edge Graph::newEdge(node v, node w)\<close>\<close>

definition newEdge :: "node \<Rightarrow> node \<Rightarrow> Graph \<Rightarrow> Graph \<times> edge" where
  "newEdge v w g =
     (let (g1, adjSrc, adjTgt) = newAdjPair v w g;
          (g2, e) = createEdgeElement v w adjSrc adjTgt g1
      in (setEdgeOfPair adjSrc adjTgt e g2, e))"

text \<open>\<open>edge Graph::newEdge(node v, node w, int index)\<close>; \<open>None\<close> when \<open>nextPower2\<close> does not return.\<close>

definition newEdge_index :: "node \<Rightarrow> node \<Rightarrow> int \<Rightarrow> Graph \<Rightarrow> (Graph \<times> edge) option" where
  "newEdge_index v w index g =
     (let (g1, adjSrc, adjTgt) = newAdjPair v w g in
      case (if index \<ge> m_edgeIdCount g1 then
              (let g2 = g1\<lparr> m_edgeIdCount := int32 (index + 1) \<rparr> in
               if index \<ge> m_edgeArrayTableSize g2 then
                 (case nextPower2 (m_edgeArrayTableSize g2) index of
                    None \<Rightarrow> None
                  | Some t \<Rightarrow> Some (growEdgeTable t g2))
               else Some g2)
            else Some g1) of
        None \<Rightarrow> None
      | Some g3 \<Rightarrow>
          (let g4 = updAdj adjSrc (\<lambda>a. a\<lparr> m_id := shl1 index \<rparr>) g3;
               g5 = updAdj adjTgt (\<lambda>a. a\<lparr> m_id := m_id (adjMem g4 adjSrc) OR 1 \<rparr>) g4;
               (g6, e) = allocEdge v w adjSrc adjTgt index g5
           in Some (setEdgeOfPair adjSrc adjTgt e (linkEdge e g6), e)))"

section \<open>Deleting\<close>

text \<open>
  \<open>void Graph::delEdge(edge e)\<close>. The observers are told first; then the two adjacency
  entries leave their rotations and \<open>e\<close> leaves the list of edges. The freed elements
  keep their last contents in the memories, where nothing refers to them any more.
\<close>

definition delEdge :: "edge \<Rightarrow> Graph \<Rightarrow> Graph" where
  "delEdge e g =
     (let g0 = fold (\<lambda>obs. notify (edgeDeleted obs e)) (m_regStructures g) g;
          src = m_src (edgeMem g0 e);
          tgt = m_tgt (edgeMem g0 e);
          g1 = updNode src (\<lambda>n. n\<lparr> adjEdges := del (m_adjSrc (edgeMem g0 e)) (adjEdges n) \<rparr>) g0;
          g2 = updNode src (\<lambda>n. n\<lparr> m_outdeg := m_outdeg n - 1 \<rparr>) g1;
          g3 = updNode tgt (\<lambda>n. n\<lparr> adjEdges := del (m_adjTgt (edgeMem g2 e)) (adjEdges n) \<rparr>) g2;
          g4 = updNode tgt (\<lambda>n. n\<lparr> m_indeg := m_indeg n - 1 \<rparr>) g3
      in g4\<lparr> edges := del e (edges g4) \<rparr>)"

text \<open>
  The loop of \<open>delNode\<close>: \<open>while((adj = adjEdges.head()) != nullptr) delEdge(adj->m_edge)\<close>.
  It ends when the rotation is empty; \<open>None\<close> when it never is.
\<close>

partial_function (option) delNode_loop :: "node \<Rightarrow> Graph \<Rightarrow> Graph option" where
  "delNode_loop v g =
     (case adjEdges (nodeMem g v) of
        [] \<Rightarrow> Some g
      | adj # _ \<Rightarrow> delNode_loop v (delEdge (m_edge (adjMem g adj)) g))"

text \<open>\<open>void Graph::delNode(node v)\<close>\<close>

definition delNode :: "node \<Rightarrow> Graph \<Rightarrow> Graph option" where
  "delNode v g =
     (let g0 = fold (\<lambda>obs. notify (nodeDeleted obs v)) (m_regStructures g) g in
      case delNode_loop v g0 of
        None \<Rightarrow> None
      | Some g1 \<Rightarrow> Some (g1\<lparr> nodes := del v (nodes g1) \<rparr>))"

section \<open>Splitting and merging edges\<close>

text \<open>
  \<open>edge Graph::split(edge e)\<close>, in the order of the source. The middle part, from
  \<open>adjEntry adjTgt = OGDF_NEW AdjElement(u)\<close> to \<open>u->adjEdges.pushBack(adjSrc)\<close>, creates
  the two adjacency entries of the new node.
\<close>

definition split_newEntries :: "edge \<Rightarrow> node \<Rightarrow> Graph \<Rightarrow> Graph \<times> adjEntry \<times> adjEntry" where
  "split_newEntries e u g =
     (let (g3, adjTgt) = allocAdj u g;
          g4 = updAdj adjTgt (\<lambda>a. a\<lparr> m_edge := e \<rparr>) g3;
          g5 = updAdj adjTgt (\<lambda>a. a\<lparr> m_twin := m_adjSrc (edgeMem g4 e) \<rparr>) g4;
          g6 = updAdj (m_adjSrc (edgeMem g5 e)) (\<lambda>a. a\<lparr> m_twin := adjTgt \<rparr>) g5;
          g7 = updAdj adjTgt (\<lambda>a. a\<lparr> m_id := m_id (adjMem g6 (m_adjTgt (edgeMem g6 e))) \<rparr>) g6;
          g8 = updNode u (\<lambda>n. n\<lparr> adjEdges := pushBack adjTgt (adjEdges n) \<rparr>) g7;
          (g9, adjSrc) = allocAdj u g8;
          g10 = updAdj adjSrc (\<lambda>a. a\<lparr> m_twin := m_adjTgt (edgeMem g9 e) \<rparr>) g9;
          g11 = updNode u (\<lambda>n. n\<lparr> adjEdges := pushBack adjSrc (adjEdges n) \<rparr>) g10
      in (g11, adjTgt, adjSrc))"

text \<open>The last part, from \<open>resetAdjEntryIndex\<close> to \<open>e->m_adjTgt = adjTgt\<close>.\<close>

definition split_relink :: "edge \<Rightarrow> edge \<Rightarrow> node \<Rightarrow> adjEntry \<Rightarrow> adjEntry \<Rightarrow> int \<Rightarrow> Graph \<Rightarrow> Graph" where
  "split_relink e e2 u adjTgt adjSrc oldId g12 =
     (let g13 = resetAdjEntryIndex (m_id (adjMem g12 (m_adjTgt (edgeMem g12 e)))) oldId g12;
          g14 = updAdj (m_adjTgt (edgeMem g13 e2)) (\<lambda>a. a\<lparr> m_twin := adjSrc \<rparr>) g13;
          g15 = updAdj adjSrc (\<lambda>a. a\<lparr> m_edge := e2 \<rparr>) g14;
          g16 = updAdj (m_adjTgt (edgeMem g15 e)) (\<lambda>a. a\<lparr> m_edge := e2 \<rparr>) g15;
          g17 = updEdge e (\<lambda>x. x\<lparr> m_tgt := u \<rparr>) g16
      in updEdge e (\<lambda>x. x\<lparr> m_adjTgt := adjTgt \<rparr>) g17)"

definition split :: "edge \<Rightarrow> Graph \<Rightarrow> Graph \<times> edge" where
  "split e g =
     (let (g1, u) = newNode g;
          g2 = updNode u (\<lambda>n. n\<lparr> m_indeg := 1, m_outdeg := 1 \<rparr>) g1;
          (g11, adjTgt, adjSrc) = split_newEntries e u g2;
          oldId = m_id (adjMem g11 (m_adjTgt (edgeMem g11 e)));
          (g12, e2) = createEdgeElement u (m_tgt (edgeMem g11 e)) adjSrc (m_adjTgt (edgeMem g11 e)) g11
      in (split_relink e e2 u adjTgt adjSrc oldId g12, e2))"

text \<open>
  The assertions of the debug build are branches of the model: a failed \<open>OGDF_ASSERT\<close>
  aborts the call. The assertions on null pointers and on \<open>graphOf()\<close> say that a handle
  is an element of this graph; the model has one graph and takes them as given.
\<close>

datatype error = AssertionFailed

text \<open>
  \<open>void Graph::unsplit(edge eIn, edge eOut)\<close>: the assertions, then the body that merges
  the two edges, tells the observers and removes \<open>eOut\<close> and \<open>u\<close>.
\<close>

definition unsplit_merge :: "edge \<Rightarrow> edge \<Rightarrow> Graph \<Rightarrow> Graph" where
  "unsplit_merge eIn eOut g =
     (let u = target g eIn;
          adjSrc = m_adjSrc (edgeMem g eIn);
          adjTgt = m_adjTgt (edgeMem g eOut);
          g1 = updEdge eIn (\<lambda>x. x\<lparr> m_tgt := m_tgt (edgeMem g eOut) \<rparr>) g;
          g2 = resetAdjEntryIndex (m_id (adjMem g1 (m_adjTgt (edgeMem g1 eIn))))
                 (m_id (adjMem g1 adjTgt)) g1;
          g3 = updAdj adjTgt (\<lambda>a. a\<lparr> m_id := m_id (adjMem g2 (m_adjTgt (edgeMem g2 eIn))) \<rparr>) g2;
          g4 = updEdge eIn (\<lambda>x. x\<lparr> m_adjTgt := adjTgt \<rparr>) g3;
          g5 = updAdj adjSrc (\<lambda>a. a\<lparr> m_twin := adjTgt \<rparr>) g4;
          g6 = updAdj adjTgt (\<lambda>a. a\<lparr> m_twin := adjSrc \<rparr>) g5;
          g7 = updAdj adjTgt (\<lambda>a. a\<lparr> m_edge := eIn \<rparr>) g6;
          g8 = fold (\<lambda>obs. notify (edgeDeleted obs eOut)) (m_regStructures g7) g7;
          g9 = fold (\<lambda>obs. notify (nodeDeleted obs u)) (m_regStructures g8) g8;
          g10 = g9\<lparr> edges := del eOut (edges g9) \<rparr>
      in g10\<lparr> nodes := del u (nodes g10) \<rparr>)"

definition unsplit :: "edge \<Rightarrow> edge \<Rightarrow> Graph \<Rightarrow> error + Graph" where
  "unsplit eIn eOut g =
     (let u = target g eIn in
      if indeg g u \<noteq> 1 then Inl AssertionFailed
      else if outdeg g u \<noteq> 1 then Inl AssertionFailed
      else if source g eOut \<noteq> u then Inl AssertionFailed
      else if isSelfLoop g eIn then Inl AssertionFailed
      else if isSelfLoop g eOut then Inl AssertionFailed
      else Inr (unsplit_merge eIn eOut g))"

section \<open>Reversing, hiding, moving\<close>

text \<open>\<open>void Graph::reverseEdge(edge e)\<close>; \<open>src\<close> and \<open>tgt\<close> are read after the swap.\<close>

definition reverseEdge :: "edge \<Rightarrow> Graph \<Rightarrow> Graph" where
  "reverseEdge e g =
     (let g1 = updEdge e (\<lambda>x. x\<lparr> m_src := m_tgt x, m_tgt := m_src x \<rparr>) g;
          g2 = updEdge e (\<lambda>x. x\<lparr> m_adjSrc := m_adjTgt x, m_adjTgt := m_adjSrc x \<rparr>) g1;
          src = m_src (edgeMem g2 e);
          tgt = m_tgt (edgeMem g2 e);
          g3 = updNode src (\<lambda>n. n\<lparr> m_outdeg := m_outdeg n + 1 \<rparr>) g2;
          g4 = updNode src (\<lambda>n. n\<lparr> m_indeg := m_indeg n - 1 \<rparr>) g3;
          g5 = updNode tgt (\<lambda>n. n\<lparr> m_outdeg := m_outdeg n - 1 \<rparr>) g4
      in updNode tgt (\<lambda>n. n\<lparr> m_indeg := m_indeg n + 1 \<rparr>) g5)"

text \<open>\<open>void Graph::hideEdge(edge e)\<close>\<close>

definition hideEdge :: "edge \<Rightarrow> Graph \<Rightarrow> Graph" where
  "hideEdge e g =
     (let src = m_src (edgeMem g e);
          tgt = m_tgt (edgeMem g e);
          g1 = updNode src (\<lambda>n. n\<lparr> adjEdges := del (m_adjSrc (edgeMem g e)) (adjEdges n) \<rparr>) g;
          g2 = updNode src (\<lambda>n. n\<lparr> m_outdeg := m_outdeg n - 1 \<rparr>) g1;
          g3 = updNode tgt (\<lambda>n. n\<lparr> adjEdges := del (m_adjTgt (edgeMem g2 e)) (adjEdges n) \<rparr>) g2;
          g4 = updNode tgt (\<lambda>n. n\<lparr> m_indeg := m_indeg n - 1 \<rparr>) g3
      in g4\<lparr> edges := del e (edges g4), m_hiddenEdges := pushBack e (m_hiddenEdges g4) \<rparr>)"

text \<open>\<open>void Graph::restoreEdge(edge e)\<close>\<close>

definition restoreEdge :: "edge \<Rightarrow> Graph \<Rightarrow> Graph" where
  "restoreEdge e g =
     (let v = m_src (edgeMem g e);
          g1 = updNode v (\<lambda>n. n\<lparr> adjEdges := pushBack (m_adjSrc (edgeMem g e)) (adjEdges n) \<rparr>) g;
          g2 = updNode v (\<lambda>n. n\<lparr> m_outdeg := m_outdeg n + 1 \<rparr>) g1;
          w = m_tgt (edgeMem g2 e);
          g3 = updNode w (\<lambda>n. n\<lparr> adjEdges := pushBack (m_adjTgt (edgeMem g2 e)) (adjEdges n) \<rparr>) g2;
          g4 = updNode w (\<lambda>n. n\<lparr> m_indeg := m_indeg n + 1 \<rparr>) g3
      in g4\<lparr> m_hiddenEdges := del e (m_hiddenEdges g4), edges := pushBack e (edges g4) \<rparr>)"

text \<open>
  \<open>void Graph::restoreAllEdges()\<close> walks the hidden edges from the tail to the head and
  reads the predecessor before it restores an edge, so it visits the list as it was at
  the start, in reverse.
\<close>

definition restoreAllEdges :: "Graph \<Rightarrow> Graph" where
  "restoreAllEdges g = fold restoreEdge (rev (m_hiddenEdges g)) g"

text \<open>
  \<open>GraphList::move(pX, L, pY, dir)\<close> as the edit operations use it: \<open>adj\<close> leaves the
  rotation of \<open>old\<close> and enters the rotation of \<open>v\<close> next to \<open>pos\<close>.
\<close>

definition moveAdjList :: "adjEntry \<Rightarrow> node \<Rightarrow> node \<Rightarrow> adjEntry \<Rightarrow> Direction \<Rightarrow> Graph \<Rightarrow> Graph" where
  "moveAdjList adj old v pos dir g =
     (let g1 = updNode old (\<lambda>n. n\<lparr> adjEdges := del adj (adjEdges n) \<rparr>) g
      in updNode v (\<lambda>n. n\<lparr> adjEdges := insertAt adj pos dir (adjEdges n) \<rparr>) g1)"

text \<open>\<open>void Graph::moveTarget(edge e, adjEntry adjTgt, Direction dir)\<close>\<close>

definition moveTarget :: "edge \<Rightarrow> adjEntry \<Rightarrow> Direction \<Rightarrow> Graph \<Rightarrow> Graph" where
  "moveTarget e adjTgt dir g =
     (let v = theNode g adjTgt;
          adj = m_adjTgt (edgeMem g e);
          g1 = moveAdjList adj (m_tgt (edgeMem g e)) v adjTgt dir g;
          g2 = updNode (m_tgt (edgeMem g1 e)) (\<lambda>n. n\<lparr> m_indeg := m_indeg n - 1 \<rparr>) g1;
          g3 = updEdge e (\<lambda>x. x\<lparr> m_tgt := v \<rparr>) g2;
          g4 = updAdj adj (\<lambda>a. a\<lparr> m_node := v \<rparr>) g3
      in updNode v (\<lambda>n. n\<lparr> m_indeg := m_indeg n + 1 \<rparr>) g4)"

text \<open>\<open>void Graph::moveSource(edge e, adjEntry adjSrc, Direction dir)\<close>\<close>

definition moveSource :: "edge \<Rightarrow> adjEntry \<Rightarrow> Direction \<Rightarrow> Graph \<Rightarrow> Graph" where
  "moveSource e adjSrc dir g =
     (let v = theNode g adjSrc;
          adj = m_adjSrc (edgeMem g e);
          g1 = moveAdjList adj (m_src (edgeMem g e)) v adjSrc dir g;
          g2 = updNode (m_src (edgeMem g1 e)) (\<lambda>n. n\<lparr> m_outdeg := m_outdeg n - 1 \<rparr>) g1;
          g3 = updEdge e (\<lambda>x. x\<lparr> m_src := v \<rparr>) g2;
          g4 = updAdj adj (\<lambda>a. a\<lparr> m_node := v \<rparr>) g3
      in updNode v (\<lambda>n. n\<lparr> m_outdeg := m_outdeg n + 1 \<rparr>) g4)"

section \<open>Contracting an edge\<close>

text \<open>
  The loop of \<open>contract\<close>:
  \<open>for (adj = adjTgt->cyclicSucc(); adj != adjTgt; adj = adjNext)\<close>. A null \<open>adj\<close> cannot
  be dereferenced, and a walk that never comes back to \<open>adjTgt\<close> does not return: both
  are \<open>None\<close>.
\<close>

partial_function (option) contract_loop ::
    "adjEntry \<Rightarrow> adjEntry \<Rightarrow> node \<Rightarrow> node \<Rightarrow> adjEntry \<Rightarrow> Graph \<Rightarrow> Graph option" where
  "contract_loop adjSrc adjTgt v w adj g =
     (if adj = adjTgt then Some g
      else if adj = nullptr then None
      else
        (let adjNext = cyclicSucc g adj in
         if twinNode g adj = v then contract_loop adjSrc adjTgt v w adjNext g
         else
           (let eAdj = theEdge g adj in
            if w = source g eAdj
            then contract_loop adjSrc adjTgt v w adjNext (moveSource eAdj adjSrc before g)
            else contract_loop adjSrc adjTgt v w adjNext (moveTarget eAdj adjSrc before g))))"

text \<open>\<open>node Graph::contract(edge e)\<close>\<close>

definition contract :: "edge \<Rightarrow> Graph \<Rightarrow> (Graph \<times> node) option" where
  "contract e g =
     (let adjSrc = adjSource g e;
          adjTgt = adjTarget g e;
          v = source g e;
          w = target g e
      in case contract_loop adjSrc adjTgt v w (cyclicSucc g adjTgt) g of
           None \<Rightarrow> None
         | Some g1 \<Rightarrow>
             (case delNode (theNode g1 adjTgt) g1 of
                None \<Rightarrow> None
              | Some g2 \<Rightarrow> Some (g2, v)))"

section \<open>Searching\<close>

text \<open>\<open>edge Graph::searchEdge(node v, node w) const\<close>; the result is \<open>nullptr\<close> when no entry matches.\<close>

definition searchEdge :: "node \<Rightarrow> node \<Rightarrow> Graph \<Rightarrow> edge" where
  "searchEdge v w g =
     (let (v', w') = (if degree g w < degree g v then (w, v) else (v, w)) in
      case find (\<lambda>adj. twinNode g adj = w') (adjEdges (nodeMem g v')) of
        None \<Rightarrow> nullptr
      | Some adj \<Rightarrow> theEdge g adj)"

section \<open>The destructor\<close>

text \<open>
  \<open>Graph::~Graph()\<close>: the hidden edges come back, every registered node, edge and
  adjacency-entry array is disconnected, and the rotations are destroyed. The registry
  of observers is not visited.
\<close>

definition destroyGraph :: "Graph \<Rightarrow> Graph" where
  "destroyGraph g =
     (let g1 = restoreAllEdges g;
          g2 = fold (disconnect NodeArrayKind) (m_regNodeArrays g1) g1;
          g3 = fold (disconnect EdgeArrayKind) (m_regEdgeArrays g2) g2;
          g4 = fold (disconnect AdjEntryArrayKind) (m_regAdjArrays g3) g3
      in fold (\<lambda>v. updNode v (\<lambda>n. n\<lparr> adjEdges := [] \<rparr>)) (nodes g4) g4)"

section \<open>The consistency check\<close>

text \<open>\<open>bool Graph::consistencyCheck() const\<close>, the release build.\<close>

definition checkNode :: "Graph \<Rightarrow> node \<Rightarrow> bool" where
  "checkNode g v =
     ((\<forall>adj \<in> set (adjEdges (nodeMem g v)).
        m_edge (adjMem g (m_twin (adjMem g adj))) = m_edge (adjMem g adj)
        \<and> (m_adjSrc (edgeMem g (m_edge (adjMem g adj))) = adj
           \<or> m_adjTgt (edgeMem g (m_edge (adjMem g adj))) = adj)
        \<and> m_node (adjMem g adj) = v)
      \<and> m_indeg (nodeMem g v) =
          int (length (filter (\<lambda>adj. m_adjSrc (edgeMem g (m_edge (adjMem g adj))) \<noteq> adj)
                 (adjEdges (nodeMem g v))))
      \<and> m_outdeg (nodeMem g v) =
          int (length (filter (\<lambda>adj. m_adjSrc (edgeMem g (m_edge (adjMem g adj))) = adj)
                 (adjEdges (nodeMem g v)))))"

definition checkEdge :: "Graph \<Rightarrow> edge \<Rightarrow> bool" where
  "checkEdge g e =
     (m_adjSrc (edgeMem g e) \<noteq> m_adjTgt (edgeMem g e)
      \<and> m_edge (adjMem g (m_adjSrc (edgeMem g e))) = e
      \<and> m_edge (adjMem g (m_adjTgt (edgeMem g e))) = e
      \<and> m_node (adjMem g (m_adjSrc (edgeMem g e))) = m_src (edgeMem g e)
      \<and> m_node (adjMem g (m_adjTgt (edgeMem g e))) = m_tgt (edgeMem g e))"

definition consistencyCheck :: "Graph \<Rightarrow> bool" where
  "consistencyCheck g = (list_all (checkNode g) (nodes g) \<and> list_all (checkEdge g) (edges g))"

section \<open>Predicates of the properties\<close>

text \<open>The capacities of the arrays \<open>as\<close> are set to \<open>n\<close>.\<close>

definition setSizes :: "int \<Rightarrow> arrayRef list \<Rightarrow> (arrayRef \<Rightarrow> ArrayBase) \<Rightarrow> arrayRef \<Rightarrow> ArrayBase" where
  "setSizes n as m = (\<lambda>a. if a \<in> set as then (m a)\<lparr> a_size := n \<rparr> else m a)"

definition isEnlargeCall :: "call \<times> Structure \<Rightarrow> bool" where
  "isEnlargeCall c = (case fst c of enlargeTableCall _ _ _ \<Rightarrow> True | _ \<Rightarrow> False)"

text \<open>Example graphs: two nodes; two nodes with an edge from the first to the second.\<close>

definition twoNodes :: Graph where
  "twoNodes = fst (newNode (fst (newNode emptyGraph)))"

text \<open>\<open>n\<close> calls of \<open>newNode()\<close>.\<close>

definition newNodes :: "nat \<Rightarrow> Graph \<Rightarrow> Graph" where
  "newNodes n g = ((\<lambda>h. fst (newNode h)) ^^ n) g"

text \<open>
  The edit operations of the model, as one type, and their dispatch. An operation that
  aborts on an assertion or does not return has no successor state.
\<close>

datatype operation =
    NewNode
  | NewNodeIndex int
  | NewEdge node node
  | NewEdgeIndex node node int
  | DelNode node
  | DelEdge edge
  | Split edge
  | Unsplit edge edge
  | ReverseEdge edge
  | HideEdge edge
  | RestoreEdge edge
  | RestoreAllEdges
  | MoveSource edge adjEntry Direction
  | MoveTarget edge adjEntry Direction
  | Contract edge
  | RegisterNodeArray arrayRef
  | RegisterEdgeArray arrayRef
  | RegisterAdjArray arrayRef
  | RegisterStructure observer

fun runOp :: "operation \<Rightarrow> Graph \<Rightarrow> Graph option" where
  "runOp NewNode g = Some (fst (newNode g))"
| "runOp (NewNodeIndex i) g = map_option fst (newNode_index i g)"
| "runOp (NewEdge v w) g = Some (fst (newEdge v w g))"
| "runOp (NewEdgeIndex v w i) g = map_option fst (newEdge_index v w i g)"
| "runOp (DelNode v) g = delNode v g"
| "runOp (DelEdge e) g = Some (delEdge e g)"
| "runOp (Split e) g = Some (fst (split e g))"
| "runOp (Unsplit eIn eOut) g = (case unsplit eIn eOut g of Inl _ \<Rightarrow> None | Inr g' \<Rightarrow> Some g')"
| "runOp (ReverseEdge e) g = Some (reverseEdge e g)"
| "runOp (HideEdge e) g = Some (hideEdge e g)"
| "runOp (RestoreEdge e) g = Some (restoreEdge e g)"
| "runOp RestoreAllEdges g = Some (restoreAllEdges g)"
| "runOp (MoveSource e adj dir) g = Some (moveSource e adj dir g)"
| "runOp (MoveTarget e adj dir) g = Some (moveTarget e adj dir g)"
| "runOp (Contract e) g = map_option fst (contract e g)"
| "runOp (RegisterNodeArray a) g = Some (registerNodeArray a g)"
| "runOp (RegisterEdgeArray a) g = Some (registerEdgeArray a g)"
| "runOp (RegisterAdjArray a) g = Some (registerAdjArray a g)"
| "runOp (RegisterStructure obs) g = Some (registerStructure obs g)"

text \<open>The explicit index of an operation, when it has one, is below \<open>2^29\<close>.\<close>

fun indexInRange :: "operation \<Rightarrow> bool" where
  "indexInRange (NewNodeIndex i) = (i < 536870912)"
| "indexInRange (NewEdgeIndex v w i) = (i < 536870912)"
| "indexInRange _ = True"

text \<open>
  A table size fits an id count: it is a power of two, at least the minimum, at least
  the id count, and the smallest such (half of it would not hold the ids).
\<close>

definition tableSizeFits :: "int \<Rightarrow> int \<Rightarrow> int \<Rightarrow> bool" where
  "tableSizeFits minSize idCount tableSize \<longleftrightarrow>
     (\<exists>k. tableSize = 2 ^ k) \<and> minSize \<le> tableSize \<and> 0 \<le> idCount \<and> idCount \<le> tableSize
     \<and> (tableSize = minSize \<or> tableSize div 2 < idCount)"

definition tableInv :: "Graph \<Rightarrow> bool" where
  "tableInv g \<longleftrightarrow>
     tableSizeFits MIN_NODE_TABLE_SIZE (m_nodeIdCount g) (m_nodeArrayTableSize g)
     \<and> tableSizeFits MIN_EDGE_TABLE_SIZE (m_edgeIdCount g) (m_edgeArrayTableSize g)
     \<and> (\<forall>a \<in> set (m_regNodeArrays g). m_nodeArrayTableSize g \<le> a_size (arrMem g NodeArrayKind a))
     \<and> (\<forall>a \<in> set (m_regEdgeArrays g). m_edgeArrayTableSize g \<le> a_size (arrMem g EdgeArrayKind a))
     \<and> (\<forall>a \<in> set (m_regAdjArrays g).
           2 * m_edgeArrayTableSize g \<le> a_size (arrMem g AdjEntryArrayKind a))"

text \<open>The fields that the table protocol reads and writes.\<close>

definition tables :: "Graph \<Rightarrow> (int \<times> int \<times> int \<times> int) \<times> (arrayRef list \<times> arrayRef list \<times> arrayRef list)
    \<times> (arrayKind \<Rightarrow> arrayRef \<Rightarrow> ArrayBase)" where
  "tables g = ((m_nodeIdCount g, m_edgeIdCount g, m_nodeArrayTableSize g, m_edgeArrayTableSize g),
     (m_regNodeArrays g, m_regEdgeArrays g, m_regAdjArrays g), arrMem g)"

text \<open>A fresh graph on which the node arrays \<open>as\<close> have registered, in this order.\<close>

definition freshWithArrays :: "arrayRef list \<Rightarrow> Graph" where
  "freshWithArrays as = fold registerNodeArray as emptyGraph"

section \<open>Well-formed graphs\<close>

text \<open>
  What the pointer structure of a graph guarantees between two calls: every element of a
  list is an allocated element, the lists have no duplicates, the entries of a rotation
  belong to the node and to a visible edge, the two adjacency entries of an edge are
  twins, point back to the edge and sit in the rotations of its endpoints (in no
  rotation while the edge is hidden), and the degree counters count the rotation.
\<close>

definition wfNode :: "Graph \<Rightarrow> node \<Rightarrow> bool" where
  "wfNode g v \<longleftrightarrow>
     0 < v \<and> v < nextNode g \<and> distinct (adjEdges (nodeMem g v))
     \<and> (\<forall>a \<in> set (adjEdges (nodeMem g v)).
           0 < a \<and> a < nextAdj g \<and> m_node (adjMem g a) = v
           \<and> m_edge (adjMem g a) \<in> set (edges g)
           \<and> (m_adjSrc (edgeMem g (m_edge (adjMem g a))) = a
               \<or> m_adjTgt (edgeMem g (m_edge (adjMem g a))) = a))
     \<and> m_indeg (nodeMem g v) =
          int (length (filter (\<lambda>adj. m_adjSrc (edgeMem g (m_edge (adjMem g adj))) \<noteq> adj)
                 (adjEdges (nodeMem g v))))
     \<and> m_outdeg (nodeMem g v) =
          int (length (filter (\<lambda>adj. m_adjSrc (edgeMem g (m_edge (adjMem g adj))) = adj)
                 (adjEdges (nodeMem g v))))"

definition wfEdgeCore :: "Graph \<Rightarrow> edge \<Rightarrow> bool" where
  "wfEdgeCore g e \<longleftrightarrow>
     0 < e \<and> e < nextEdge g
     \<and> m_src (edgeMem g e) \<in> set (nodes g) \<and> m_tgt (edgeMem g e) \<in> set (nodes g)
     \<and> m_adjSrc (edgeMem g e) \<noteq> m_adjTgt (edgeMem g e)
     \<and> 0 < m_adjSrc (edgeMem g e) \<and> m_adjSrc (edgeMem g e) < nextAdj g
     \<and> 0 < m_adjTgt (edgeMem g e) \<and> m_adjTgt (edgeMem g e) < nextAdj g
     \<and> m_edge (adjMem g (m_adjSrc (edgeMem g e))) = e
     \<and> m_edge (adjMem g (m_adjTgt (edgeMem g e))) = e
     \<and> m_twin (adjMem g (m_adjSrc (edgeMem g e))) = m_adjTgt (edgeMem g e)
     \<and> m_twin (adjMem g (m_adjTgt (edgeMem g e))) = m_adjSrc (edgeMem g e)
     \<and> m_node (adjMem g (m_adjSrc (edgeMem g e))) = m_src (edgeMem g e)
     \<and> m_node (adjMem g (m_adjTgt (edgeMem g e))) = m_tgt (edgeMem g e)"

definition wfEdge :: "Graph \<Rightarrow> edge \<Rightarrow> bool" where
  "wfEdge g e \<longleftrightarrow>
     wfEdgeCore g e
     \<and> m_adjSrc (edgeMem g e) \<in> set (adjEdges (nodeMem g (m_src (edgeMem g e))))
     \<and> m_adjTgt (edgeMem g e) \<in> set (adjEdges (nodeMem g (m_tgt (edgeMem g e))))"

definition wfHidden :: "Graph \<Rightarrow> edge \<Rightarrow> bool" where
  "wfHidden g e \<longleftrightarrow>
     wfEdgeCore g e
     \<and> m_adjSrc (edgeMem g e) \<notin> set (adjEdges (nodeMem g (m_src (edgeMem g e))))
     \<and> m_adjTgt (edgeMem g e) \<notin> set (adjEdges (nodeMem g (m_tgt (edgeMem g e))))"

definition wf :: "Graph \<Rightarrow> bool" where
  "wf g \<longleftrightarrow>
     0 < nextNode g \<and> 0 < nextEdge g \<and> 0 < nextAdj g
     \<and> distinct (nodes g) \<and> distinct (edges g @ m_hiddenEdges g)
     \<and> list_all (wfNode g) (nodes g)
     \<and> list_all (wfEdge g) (edges g)
     \<and> list_all (wfHidden g) (m_hiddenEdges g)"

definition oneEdge :: Graph where
  "oneEdge = fst (newEdge 1 2 twoNodes)"

text \<open>The edge \<open>e\<close> joins \<open>v\<close> and \<open>w\<close>, in either direction.\<close>

definition joins :: "Graph \<Rightarrow> edge \<Rightarrow> node \<Rightarrow> node \<Rightarrow> bool" where
  "joins g e v w \<longleftrightarrow>
     (m_src (edgeMem g e) = v \<and> m_tgt (edgeMem g e) = w)
     \<or> (m_src (edgeMem g e) = w \<and> m_tgt (edgeMem g e) = v)"

text \<open>
  The spec's scan: the edge of the first entry in the rotation of \<open>x\<close> whose twin lies
  on \<open>y\<close>, \<open>nullptr\<close> when there is none.
\<close>

definition firstEdgeTo :: "Graph \<Rightarrow> node \<Rightarrow> node \<Rightarrow> edge" where
  "firstEdgeTo g x y =
     (case find (\<lambda>adj. twinNode g adj = y) (adjEdges (nodeMem g x)) of
        None \<Rightarrow> nullptr
      | Some adj \<Rightarrow> theEdge g adj)"

text \<open>The arrays \<open>as\<close> are detached.\<close>

definition detachAll :: "arrayRef list \<Rightarrow> (arrayRef \<Rightarrow> ArrayBase) \<Rightarrow> arrayRef \<Rightarrow> ArrayBase" where
  "detachAll as m = (\<lambda>a. if a \<in> set as then (m a)\<lparr> a_attached := False \<rparr> else m a)"

section \<open>Deletion notifications\<close>

text \<open>
  One loop \<open>for (GraphObserver *obs : m_regStructures) obs->...Deleted(x)\<close>: the call
  \<open>c obs\<close> for every registered observer, in the order of the registry, each seeing the
  structure \<open>s\<close>.
\<close>

definition deletionRound :: "observer list \<Rightarrow> (observer \<Rightarrow> call) \<Rightarrow> Structure \<Rightarrow> (call \<times> Structure) list" where
  "deletionRound regs c s = map (\<lambda>obs. (c obs, s)) regs"

text \<open>
  What an observer can query in the structure it sees. The edge is intact: it is in the
  list of edges, its endpoints are nodes, its two adjacency entries are in the rotations
  of its endpoints, belong to it, are twins of each other and sit at its endpoints. The
  node is intact: it is in the list of nodes and every entry of its rotation sits at it
  and is one of the two entries of an intact edge.
\<close>

definition edgeIntact :: "Structure \<Rightarrow> edge \<Rightarrow> bool" where
  "edgeIntact s e \<longleftrightarrow>
     e \<in> set (s_edges s)
     \<and> m_src (s_edgeMem s e) \<in> set (s_nodes s) \<and> m_tgt (s_edgeMem s e) \<in> set (s_nodes s)
     \<and> m_adjSrc (s_edgeMem s e) \<in> set (adjEdges (s_nodeMem s (m_src (s_edgeMem s e))))
     \<and> m_adjTgt (s_edgeMem s e) \<in> set (adjEdges (s_nodeMem s (m_tgt (s_edgeMem s e))))
     \<and> m_edge (s_adjMem s (m_adjSrc (s_edgeMem s e))) = e
     \<and> m_edge (s_adjMem s (m_adjTgt (s_edgeMem s e))) = e
     \<and> m_twin (s_adjMem s (m_adjSrc (s_edgeMem s e))) = m_adjTgt (s_edgeMem s e)
     \<and> m_twin (s_adjMem s (m_adjTgt (s_edgeMem s e))) = m_adjSrc (s_edgeMem s e)
     \<and> m_node (s_adjMem s (m_adjSrc (s_edgeMem s e))) = m_src (s_edgeMem s e)
     \<and> m_node (s_adjMem s (m_adjTgt (s_edgeMem s e))) = m_tgt (s_edgeMem s e)"

definition nodeIntact :: "Structure \<Rightarrow> node \<Rightarrow> bool" where
  "nodeIntact s v \<longleftrightarrow>
     v \<in> set (s_nodes s)
     \<and> list_all (\<lambda>a. m_node (s_adjMem s a) = v
                      \<and> edgeIntact s (m_edge (s_adjMem s a))
                      \<and> (m_adjSrc (s_edgeMem s (m_edge (s_adjMem s a))) = a
                          \<or> m_adjTgt (s_edgeMem s (m_edge (s_adjMem s a))) = a))
          (adjEdges (s_nodeMem s v))"

text \<open>The elements of a list, each once, in the order of their first occurrence.\<close>

definition uniq :: "'a list \<Rightarrow> 'a list" where
  "uniq xs = rev (remdups (rev xs))"

text \<open>The rounds of \<open>edgeDeleted\<close> calls of a sequence of edge deletions.\<close>

definition edgeRounds :: "observer list \<Rightarrow> (edge \<times> Structure) list \<Rightarrow> (call \<times> Structure) list" where
  "edgeRounds regs rounds =
     concat (map (\<lambda>(e, s). deletionRound regs (\<lambda>obs. edgeDeleted obs e) s) rounds)"

fun isResetIndexCall :: "call \<Rightarrow> bool" where
  "isResetIndexCall (resetIndexCall a n old) = True"
| "isResetIndexCall _ = False"

text \<open>
  The path \<open>1 \<rightarrow> 3 \<rightarrow> 2\<close> obtained by splitting the edge of \<open>oneEdge\<close>, watched by
  the observers 5 and 7.
\<close>

definition pathGraph :: Graph where
  "pathGraph = registerStructure 7 (registerStructure 5 (fst (split 1 oneEdge)))"

section \<open>The ids of the adjacency entries\<close>

text \<open>The edges of the graph: the ones in the list of edges and the hidden ones.\<close>

definition allEdges :: "Graph \<Rightarrow> edge list" where
  "allEdges g = edges g @ m_hiddenEdges g"

text \<open>The ids of the source-side and of the target-side adjacency entry of an edge.\<close>

definition idSrc :: "Graph \<Rightarrow> edge \<Rightarrow> int" where
  "idSrc g e = m_id (adjMem g (m_adjSrc (edgeMem g e)))"

definition idTgt :: "Graph \<Rightarrow> edge \<Rightarrow> int" where
  "idTgt g e = m_id (adjMem g (m_adjTgt (edgeMem g e)))"

text \<open>
  The ids as \<open>createEdgeElement\<close> writes them: \<open>index << 1\<close> on the source side and
  \<open>(index << 1) | 1\<close> on the target side; and the same two ids on either side.
\<close>

definition idsOrdered :: "Graph \<Rightarrow> edge \<Rightarrow> bool" where
  "idsOrdered g e \<longleftrightarrow>
     idSrc g e = shl1 (e_index (edgeMem g e)) \<and> idTgt g e = shl1 (e_index (edgeMem g e)) OR 1"

definition idsPaired :: "Graph \<Rightarrow> edge \<Rightarrow> bool" where
  "idsPaired g e \<longleftrightarrow>
     idsOrdered g e
     \<or> (idSrc g e = shl1 (e_index (edgeMem g e)) OR 1 \<and> idTgt g e = shl1 (e_index (edgeMem g e)))"

definition idInv :: "Graph \<Rightarrow> bool" where
  "idInv g \<longleftrightarrow> list_all (idsOrdered g) (allEdges g)"

definition idPairInv :: "Graph \<Rightarrow> bool" where
  "idPairInv g \<longleftrightarrow> list_all (idsPaired g) (allEdges g)"

text \<open>
  An operation that leaves the ids alone: it adds no edge, and keeps the index and the
  two adjacency entries of every edge and the id of every adjacency entry.
\<close>

definition idFrame :: "Graph \<Rightarrow> Graph \<Rightarrow> bool" where
  "idFrame g g' \<longleftrightarrow>
     set (allEdges g') \<subseteq> set (allEdges g)
     \<and> (\<forall>e. e_index (edgeMem g' e) = e_index (edgeMem g e)
            \<and> m_adjSrc (edgeMem g' e) = m_adjSrc (edgeMem g e)
            \<and> m_adjTgt (edgeMem g' e) = m_adjTgt (edgeMem g e))
     \<and> (\<forall>a. m_id (adjMem g' a) = m_id (adjMem g a))"

text \<open>
  The handles of an operation are elements of the graph, as the assertions on
  \<open>graphOf()\<close> demand: an edge that is split, unsplit or hidden is in the list of edges,
  an edge that is restored is hidden.
\<close>

fun opValid :: "Graph \<Rightarrow> operation \<Rightarrow> bool" where
  "opValid g (Split e) = (e \<in> set (edges g))"
| "opValid g (Unsplit eIn eOut) = (eIn \<in> set (edges g) \<and> eOut \<in> set (edges g))"
| "opValid g (HideEdge e) = (e \<in> set (edges g))"
| "opValid g (RestoreEdge e) = (e \<in> set (m_hiddenEdges g))"
| "opValid g _ = True"

fun isReverseEdge :: "operation \<Rightarrow> bool" where
  "isReverseEdge (ReverseEdge e) = True"
| "isReverseEdge _ = False"

section \<open>Contraction, step by step\<close>

text \<open>The adjacency entry is the source-side entry of its edge.\<close>

definition isSrcEntry :: "Graph \<Rightarrow> adjEntry \<Rightarrow> bool" where
  "isSrcEntry g b \<longleftrightarrow> m_adjSrc (edgeMem g (m_edge (adjMem g b))) = b"

text \<open>
  The body of the loop of \<open>contract\<close> for an entry that is not skipped: the edge of
  \<open>adj\<close> is moved to the node of \<open>adjSrc\<close>, on the side on which it meets \<open>w\<close>.
\<close>

definition spliceStep :: "adjEntry \<Rightarrow> node \<Rightarrow> adjEntry \<Rightarrow> Graph \<Rightarrow> Graph" where
  "spliceStep adjSrc w adj g =
     (let eAdj = theEdge g adj in
      if w = source g eAdj then moveSource eAdj adjSrc before g
      else moveTarget eAdj adjSrc before g)"

text \<open>
  What the loop of \<open>contract\<close> has done when it stops, from \<open>g\<close> to \<open>g1\<close>: the lists
  are the same, every edge between \<open>w\<close> and a node other than \<open>v\<close> has its end moved
  from \<open>w\<close> to \<open>v\<close>, its entry is in the rotation of \<open>v\<close>, the entries of the edges
  between \<open>v\<close> and \<open>w\<close> stay at \<open>w\<close>, and the other rotations are untouched.
\<close>

definition spliced :: "node \<Rightarrow> node \<Rightarrow> Graph \<Rightarrow> Graph \<Rightarrow> bool" where
  "spliced v w g g1 \<longleftrightarrow>
     wf g1 \<and> nodes g1 = nodes g \<and> edges g1 = edges g \<and> m_hiddenEdges g1 = m_hiddenEdges g
     \<and> (\<forall>y. m_adjSrc (edgeMem g1 y) = m_adjSrc (edgeMem g y)
            \<and> m_adjTgt (edgeMem g1 y) = m_adjTgt (edgeMem g y)
            \<and> m_src (edgeMem g1 y) =
                (if y \<in> set (edges g) \<and> m_src (edgeMem g y) = w \<and> m_tgt (edgeMem g y) \<noteq> v
                 then v else m_src (edgeMem g y))
            \<and> m_tgt (edgeMem g1 y) =
                (if y \<in> set (edges g) \<and> m_tgt (edgeMem g y) = w \<and> m_src (edgeMem g y) \<noteq> v
                 then v else m_tgt (edgeMem g y)))
     \<and> (\<forall>b. m_edge (adjMem g1 b) = m_edge (adjMem g b)
            \<and> m_twin (adjMem g1 b) = m_twin (adjMem g b))
     \<and> set (adjEdges (nodeMem g1 v)) =
          set (adjEdges (nodeMem g v)) \<union> {b \<in> set (adjEdges (nodeMem g w)). twinNode g b \<noteq> v}
     \<and> set (adjEdges (nodeMem g1 w)) = {b \<in> set (adjEdges (nodeMem g w)). twinNode g b = v}
     \<and> (\<forall>u. u \<noteq> v \<and> u \<noteq> w \<longrightarrow> adjEdges (nodeMem g1 u) = adjEdges (nodeMem g u))"

text \<open>The edge has no end at \<open>w\<close>.\<close>

definition awayFrom :: "Graph \<Rightarrow> node \<Rightarrow> edge \<Rightarrow> bool" where
  "awayFrom g w x \<longleftrightarrow> m_src (edgeMem g x) \<noteq> w \<and> m_tgt (edgeMem g x) \<noteq> w"

text \<open>No entry in the rotation of \<open>w\<close> has its twin at \<open>w\<close>.\<close>

definition noSelfLoopAt :: "Graph \<Rightarrow> node \<Rightarrow> bool" where
  "noSelfLoopAt g w \<longleftrightarrow> list_all (\<lambda>a. twinNode g a \<noteq> w) (adjEdges (nodeMem g w))"

text \<open>Two nodes and two parallel edges \<open>1 \<rightarrow> 2\<close>.\<close>

definition twoParallel :: Graph where
  "twoParallel = fst (newEdge 1 2 oneEdge)"

text \<open>
  What the observers called by \<open>unsplit(eIn, eOut)\<close> see: the lists and the rotations
  as they are before \<open>eOut\<close> and \<open>u\<close> are taken out, with the edge and adjacency
  records already merged.
\<close>

definition mergedView :: "edge \<Rightarrow> edge \<Rightarrow> Graph \<Rightarrow> Structure" where
  "mergedView eIn eOut g =
     \<lparr> s_nodes = nodes g, s_edges = edges g, s_hiddenEdges = m_hiddenEdges g,
       s_nodeMem = nodeMem g,
       s_edgeMem = edgeMem (unsplit_merge eIn eOut g),
       s_adjMem = adjMem (unsplit_merge eIn eOut g) \<rparr>"

section \<open>The rest of the interface\<close>

text \<open>
  Modelled from the spec: \<open>reinit(n)\<close> of a registered array (the array classes are
  declared outside the source file) builds the table anew with \<open>n\<close> entries.
\<close>

definition reinit :: "arrayKind \<Rightarrow> int \<Rightarrow> arrayRef \<Rightarrow> Graph \<Rightarrow> Graph" where
  "reinit k newSize a g =
     notify (reinitCall k a newSize) (updArray k a (\<lambda>t. t\<lparr> a_size := newSize \<rparr>) g)"

text \<open>\<open>void Graph::reinitArrays()\<close>\<close>

definition reinitArrays :: "Graph \<Rightarrow> Graph" where
  "reinitArrays g =
     (let g1 = fold (reinit NodeArrayKind (m_nodeArrayTableSize g)) (m_regNodeArrays g) g;
          g2 = fold (reinit EdgeArrayKind (m_edgeArrayTableSize g1)) (m_regEdgeArrays g1) g1
      in fold (reinit AdjEntryArrayKind (shl1 (m_edgeArrayTableSize g2))) (m_regAdjArrays g2) g2)"

text \<open>\<open>void Graph::reinitStructures()\<close>\<close>

definition reinitStructures :: "Graph \<Rightarrow> Graph" where
  "reinitStructures g = fold (\<lambda>obs. notify (reInit obs)) (m_regStructures g) g"

text \<open>
  \<open>Graph::unregisterArray\<close>, \<open>Graph::unregisterStructure\<close> and \<open>Graph::moveRegisterArray\<close>.
  The list iterator a registration returned is a position in the registry: \<open>del(it)\<close>
  takes the entry at this position out, \<open>*it = p\<close> overwrites it. The array that moves
  in is not touched. A position outside the registry is outside the contract of the list
  class; the model leaves the registry as it is.
\<close>

definition delAt :: "nat \<Rightarrow> 'a list \<Rightarrow> 'a list" where
  "delAt i xs = take i xs @ drop (Suc i) xs"

definition unregisterNodeArray :: "nat \<Rightarrow> Graph \<Rightarrow> Graph" where
  "unregisterNodeArray it g = g\<lparr> m_regNodeArrays := delAt it (m_regNodeArrays g) \<rparr>"

definition unregisterEdgeArray :: "nat \<Rightarrow> Graph \<Rightarrow> Graph" where
  "unregisterEdgeArray it g = g\<lparr> m_regEdgeArrays := delAt it (m_regEdgeArrays g) \<rparr>"

definition unregisterAdjArray :: "nat \<Rightarrow> Graph \<Rightarrow> Graph" where
  "unregisterAdjArray it g = g\<lparr> m_regAdjArrays := delAt it (m_regAdjArrays g) \<rparr>"

definition unregisterStructure :: "nat \<Rightarrow> Graph \<Rightarrow> Graph" where
  "unregisterStructure it g = g\<lparr> m_regStructures := delAt it (m_regStructures g) \<rparr>"

definition moveRegisterNodeArray :: "nat \<Rightarrow> arrayRef \<Rightarrow> Graph \<Rightarrow> Graph" where
  "moveRegisterNodeArray it pNodeArray g =
     g\<lparr> m_regNodeArrays := (m_regNodeArrays g)[it := pNodeArray] \<rparr>"

definition moveRegisterEdgeArray :: "nat \<Rightarrow> arrayRef \<Rightarrow> Graph \<Rightarrow> Graph" where
  "moveRegisterEdgeArray it pEdgeArray g =
     g\<lparr> m_regEdgeArrays := (m_regEdgeArrays g)[it := pEdgeArray] \<rparr>"

definition moveRegisterAdjArray :: "nat \<Rightarrow> arrayRef \<Rightarrow> Graph \<Rightarrow> Graph" where
  "moveRegisterAdjArray it pAdjArray g =
     g\<lparr> m_regAdjArrays := (m_regAdjArrays g)[it := pAdjArray] \<rparr>"

text \<open>
  \<open>void Graph::resetEdgeIdCount(int maxId)\<close>. The loop over the edges is compiled in a
  debug build only and runs when the debug level is at least that of the consistency
  checks (\<open>checks\<close>); there the assertion fails when an edge has an index above \<open>maxId\<close>.
\<close>

definition resetEdgeIdCount :: "bool \<Rightarrow> int \<Rightarrow> Graph \<Rightarrow> error + Graph" where
  "resetEdgeIdCount checks maxId g =
     (let g1 = g\<lparr> m_edgeIdCount := int32 (maxId + 1) \<rparr> in
      if checks \<and> list_ex (\<lambda>e. e_index (edgeMem g1 e) > maxId) (edges g1)
      then Inl AssertionFailed
      else Inr g1)"

subsection \<open>Clearing\<close>

text \<open>
  The head of \<open>clear\<close> and of the \<open>constructInitBy\<close> functions: the rotations are
  destroyed, \<open>nodes.clear(); edges.clear(); m_nodeIdCount = m_edgeIdCount = 0;\<close>.
  The list of hidden edges is not visited.
\<close>

definition dropElements :: "Graph \<Rightarrow> Graph" where
  "dropElements g =
     (let g1 = fold (\<lambda>v. updNode v (\<lambda>n. n\<lparr> adjEdges := [] \<rparr>)) (nodes g) g;
          g2 = g1\<lparr> nodes := [] \<rparr>;
          g3 = g2\<lparr> edges := [] \<rparr>
      in g3\<lparr> m_nodeIdCount := 0, m_edgeIdCount := 0 \<rparr>)"

text \<open>
  \<open>void Graph::clear()\<close>. The node table size goes back to the minimum; the edge table
  size is not assigned.
\<close>

definition clear :: "Graph \<Rightarrow> Graph" where
  "clear g =
     (let g1 = fold (\<lambda>obs. notify (cleared obs)) (m_regStructures g) g;
          g2 = dropElements g1;
          g3 = g2\<lparr> m_nodeArrayTableSize := MIN_NODE_TABLE_SIZE \<rparr>
      in reinitArrays g3)"

subsection \<open>Copying\<close>

text \<open>\<open>node Graph::pureNewNode()\<close>: the table size is not looked at.\<close>

definition pureNewNode :: "Graph \<Rightarrow> Graph \<times> node" where
  "pureNewNode g =
     (let (g1, v) = allocNode (m_nodeIdCount g) g;
          g2 = g1\<lparr> m_nodeIdCount := int32 (m_nodeIdCount g1 + 1) \<rparr>
      in (linkNode v g2, v))"

text \<open>
  Modelled from the spec: \<open>NodeArray\<close> and \<open>EdgeArray\<close> (declared outside the source
  file) are tables indexed by the index of the element of the graph they belong to;
  \<open>init(G, x)\<close> fills the table with \<open>x\<close>.
\<close>

type_synonym 'a NodeArray = "int \<Rightarrow> 'a"
type_synonym 'a EdgeArray = "int \<Rightarrow> 'a"

definition atNode :: "Graph \<Rightarrow> 'a NodeArray \<Rightarrow> node \<Rightarrow> 'a" where
  "atNode G arr v = arr (n_index (nodeMem G v))"

definition atEdge :: "Graph \<Rightarrow> 'a EdgeArray \<Rightarrow> edge \<Rightarrow> 'a" where
  "atEdge G arr e = arr (e_index (edgeMem G e))"

definition putNode :: "Graph \<Rightarrow> node \<Rightarrow> 'a \<Rightarrow> 'a NodeArray \<Rightarrow> 'a NodeArray" where
  "putNode G v x arr = arr(n_index (nodeMem G v) := x)"

definition putEdge :: "Graph \<Rightarrow> edge \<Rightarrow> 'a \<Rightarrow> 'a EdgeArray \<Rightarrow> 'a EdgeArray" where
  "putEdge G e x arr = arr(e_index (edgeMem G e) := x)"

text \<open>
  Modelled from the spec: the constructor \<open>AdjElement(e, id)\<close> (declared outside the
  source file) sets the edge and the index; twin and node are null.
\<close>

definition allocAdjOf :: "edge \<Rightarrow> int \<Rightarrow> Graph \<Rightarrow> Graph \<times> adjEntry" where
  "allocAdjOf e idx g =
     (let a = nextAdj g in
      (g\<lparr> nextAdj := Suc a,
          adjMem := (adjMem g)(a := \<lparr> m_twin = nullptr, m_edge = e, m_node = nullptr,
                                     m_id = idx \<rparr>) \<rparr>, a))"

text \<open>
  A loop whose body may dereference a null pointer: the body returns \<open>None\<close> there, and
  so does the loop.
\<close>

fun foldOpt :: "('a \<Rightarrow> 'b \<Rightarrow> 'b option) \<Rightarrow> 'a list \<Rightarrow> 'b \<Rightarrow> 'b option" where
  "foldOpt f [] s = Some s"
| "foldOpt f (x # xs) s = (case f x s of None \<Rightarrow> None | Some s' \<Rightarrow> foldOpt f xs s')"

text \<open>
  The body of the first loop of \<open>copy\<close>:
  \<open>node v = mapNode[vG] = pureNewNode(); v->m_indeg = vG->m_indeg; v->m_outdeg = vG->m_outdeg;\<close>
\<close>

definition copy_node :: "Graph \<Rightarrow> node \<Rightarrow> Graph \<times> node NodeArray \<Rightarrow> Graph \<times> node NodeArray" where
  "copy_node G vG st =
     (let (g, mapNode) = st;
          (g1, v) = pureNewNode g;
          g2 = updNode v (\<lambda>n. n\<lparr> m_indeg := m_indeg (nodeMem G vG) \<rparr>) g1;
          g3 = updNode v (\<lambda>n. n\<lparr> m_outdeg := m_outdeg (nodeMem G vG) \<rparr>) g2
      in (g3, putNode G vG v mapNode))"

text \<open>
  The body of the second loop of \<open>copy\<close> and of \<open>constructInitByNodes\<close>: the copy of an
  edge and its two adjacency entries, which are twins and are in no rotation yet. No
  table is enlarged and no observer is told.
\<close>

definition copy_edge :: "Graph \<Rightarrow> node NodeArray \<Rightarrow> edge \<Rightarrow> Graph \<times> edge EdgeArray
    \<Rightarrow> Graph \<times> edge EdgeArray" where
  "copy_edge G mapNode e st =
     (let (g, mapEdge) = st;
          (g1, eC) = allocEdge (atNode G mapNode (source G e)) (atNode G mapNode (target G e))
                       nullptr nullptr (m_edgeIdCount g) g;
          g2 = g1\<lparr> edges := pushBack eC (edges g1) \<rparr>;
          (g3, adjSrc) = allocAdjOf eC (shl1 (m_edgeIdCount g2)) g2;
          g4 = updEdge eC (\<lambda>x. x\<lparr> m_adjSrc := adjSrc \<rparr>) g3;
          (g5, adjTgt) = allocAdjOf eC (shl1 (m_edgeIdCount g4) OR 1) g4;
          g6 = updEdge eC (\<lambda>x. x\<lparr> m_adjTgt := adjTgt \<rparr>) g5;
          g7 = updAdj adjTgt (\<lambda>a. a\<lparr> m_twin := m_adjSrc (edgeMem g6 eC) \<rparr>) g6;
          g8 = updAdj (m_adjSrc (edgeMem g7 eC))
                 (\<lambda>a. a\<lparr> m_twin := m_adjTgt (edgeMem g7 eC) \<rparr>) g7
      in (g8\<lparr> m_edgeIdCount := int32 (m_edgeIdCount g8 + 1) \<rparr>, putEdge G e eC mapEdge))"

text \<open>
  The body of the inner loop of the third loop of \<open>copy\<close> and of \<open>constructInitByNodes\<close>:
  the entry \<open>adjG\<close> of the rotation of \<open>vG\<close> gets its copy in the rotation of \<open>v\<close>. Of a
  self-loop the first entry met is the source entry, the second the target entry.
  \<open>eC\<close> is dereferenced: when it is null the loop does not go on.
\<close>

definition copy_adj :: "Graph \<Rightarrow> edge EdgeArray \<Rightarrow> node \<Rightarrow> adjEntry \<Rightarrow> Graph \<times> bool EdgeArray
    \<Rightarrow> (Graph \<times> bool EdgeArray) option" where
  "copy_adj G mapEdge v adjG st =
     (let (g, mark) = st;
          e = m_edge (adjMem G adjG);
          eC = atEdge G mapEdge e
      in if eC = nullptr then None
         else
           (let (adj, mark1) =
                  (if isSelfLoop g eC then
                     (if atEdge G mark e then (m_adjTgt (edgeMem g eC), mark)
                      else (m_adjSrc (edgeMem g eC), putEdge G e True mark))
                   else ((if v = m_src (edgeMem g eC) then m_adjSrc (edgeMem g eC)
                          else m_adjTgt (edgeMem g eC)), mark));
                g1 = updNode v (\<lambda>n. n\<lparr> adjEdges := pushBack adj (adjEdges n) \<rparr>) g;
                g2 = updAdj adj (\<lambda>a. a\<lparr> m_node := v \<rparr>) g1
            in Some (g2, mark1)))"

definition copy_rotation :: "Graph \<Rightarrow> node NodeArray \<Rightarrow> edge EdgeArray \<Rightarrow> node
    \<Rightarrow> Graph \<times> bool EdgeArray \<Rightarrow> (Graph \<times> bool EdgeArray) option" where
  "copy_rotation G mapNode mapEdge vG st =
     foldOpt (copy_adj G mapEdge (atNode G mapNode vG)) (adjEdges (nodeMem G vG)) st"

text \<open>
  \<open>void Graph::copy(const Graph &G, NodeArray<node> &mapNode, EdgeArray<edge> &mapEdge)\<close>
  for a graph \<open>G\<close> that is not the graph written to. The result is the graph with the two
  maps; a map is left as it was passed when the function returns before it initialises it.
  The maps and the marks are arrays of \<open>G\<close> and register there; \<open>G\<close> is not part of the
  result.
\<close>

definition copy :: "Graph \<Rightarrow> node NodeArray \<Rightarrow> edge EdgeArray \<Rightarrow> Graph
    \<Rightarrow> (Graph \<times> node NodeArray \<times> edge EdgeArray) option" where
  "copy G mapNode mapEdge g =
     (if nodes G = [] then Some (g, mapNode, mapEdge)
      else
        (let (g1, mapNode1) = fold (copy_node G) (nodes G) (g, (\<lambda>_. nullptr)) in
         if edges G = [] then Some (g1, mapNode1, mapEdge)
         else
           (let (g2, mapEdge1) = fold (copy_edge G mapNode1) (edges G) (g1, (\<lambda>_. nullptr)) in
            case foldOpt (copy_rotation G mapNode1 mapEdge1) (nodes G) (g2, (\<lambda>_. False)) of
              None \<Rightarrow> None
            | Some (g3, mark) \<Rightarrow> Some (g3, mapNode1, mapEdge1))))"

text \<open>
  The two assignments that follow a copy:
  \<open>m_nodeArrayTableSize = nextPower2(MIN_NODE_TABLE_SIZE, m_nodeIdCount);
   m_edgeArrayTableSize = nextPower2(MIN_EDGE_TABLE_SIZE, m_edgeIdCount);\<close>
\<close>

definition setTableSizes :: "Graph \<Rightarrow> Graph option" where
  "setTableSizes g =
     (case nextPower2 MIN_NODE_TABLE_SIZE (m_nodeIdCount g) of
        None \<Rightarrow> None
      | Some n \<Rightarrow>
          (case nextPower2 MIN_EDGE_TABLE_SIZE (m_edgeIdCount (g\<lparr> m_nodeArrayTableSize := n \<rparr>)) of
             None \<Rightarrow> None
           | Some m \<Rightarrow> Some (g\<lparr> m_nodeArrayTableSize := n, m_edgeArrayTableSize := m \<rparr>)))"

text \<open>
  \<open>Graph::Graph(const Graph &G)\<close>. The new graph has nothing registered; its table sizes
  are first assigned after the copy, and \<open>copy\<close> does not read them.
\<close>

definition copyConstructor :: "Graph \<Rightarrow> Graph option" where
  "copyConstructor G =
     (case copy G (\<lambda>_. nullptr) (\<lambda>_. nullptr) emptyGraph of
        None \<Rightarrow> None
      | Some (g1, mapNode, mapEdge) \<Rightarrow> setTableSizes g1)"

text \<open>
  \<open>void Graph::assign(const Graph &G, NodeArray<node> &mapNode, EdgeArray<edge> &mapEdge)\<close>.
  The argument is \<open>Some G\<close> for another graph and \<open>None\<close> for the graph itself, which is
  empty by the time \<open>copy\<close> reads it, so that \<open>copy\<close> returns at once.
\<close>

definition assign :: "Graph option \<Rightarrow> node NodeArray \<Rightarrow> edge EdgeArray \<Rightarrow> Graph
    \<Rightarrow> (Graph \<times> node NodeArray \<times> edge EdgeArray) option" where
  "assign src mapNode mapEdge g =
     (let g1 = clear g in
      case (case src of None \<Rightarrow> Some (g1, mapNode, mapEdge)
            | Some G \<Rightarrow> copy G mapNode mapEdge g1) of
        None \<Rightarrow> None
      | Some (g2, mapNode1, mapEdge1) \<Rightarrow>
          (case setTableSizes g2 of
             None \<Rightarrow> None
           | Some g3 \<Rightarrow> Some (reinitArrays g3, mapNode1, mapEdge1)))"

text \<open>
  \<open>Graph &Graph::operator=(const Graph &G)\<close>: the same statements, with the two maps of
  \<open>copy(G)\<close>, which are local.
\<close>

definition operator_assign :: "Graph option \<Rightarrow> Graph \<Rightarrow> Graph option" where
  "operator_assign src g = map_option fst (assign src (\<lambda>_. nullptr) (\<lambda>_. nullptr) g)"

text \<open>
  \<open>void Graph::construct(const Graph &G, NodeArray<node> &mapNode, EdgeArray<edge> &mapEdge)\<close>:
  the graph is not cleared and the registered arrays are not reinitialised. When \<open>G\<close> is
  the graph itself (\<open>None\<close>) and has a node, the first loop of \<open>copy\<close> runs over a list
  that grows by one node in each round and does not end.
\<close>

definition construct :: "Graph option \<Rightarrow> node NodeArray \<Rightarrow> edge EdgeArray \<Rightarrow> Graph
    \<Rightarrow> (Graph \<times> node NodeArray \<times> edge EdgeArray) option" where
  "construct src mapNode mapEdge g =
     (case (case src of
              None \<Rightarrow> if nodes g = [] then Some (g, mapNode, mapEdge) else None
            | Some G \<Rightarrow> copy G mapNode mapEdge g) of
        None \<Rightarrow> None
      | Some (g1, mapNode1, mapEdge1) \<Rightarrow>
          (case setTableSizes g1 of
             None \<Rightarrow> None
           | Some g2 \<Rightarrow> Some (g2, mapNode1, mapEdge1)))"

subsection \<open>Building a graph from a part of another graph\<close>

text \<open>
  Modelled from the spec: the class \<open>CCsInfo\<close> is declared outside the source file. It
  holds the nodes and the edges of a graph grouped by component; \<open>startNode(cc)\<close> is
  \<open>m_startNode[cc]\<close>, \<open>stopNode(cc)\<close> is \<open>m_startNode[cc+1]\<close>, \<open>v(i)\<close> is \<open>m_nodes[i]\<close>, and
  likewise for the edges. An index outside an array is a failed assertion of the array
  class.
\<close>

record CCsInfo =
  m_numCC :: int
  m_nodes :: "node list"
  m_edges :: "edge list"
  m_startNode :: "int list"
  m_startEdge :: "int list"

definition arrayAt :: "'a list \<Rightarrow> int \<Rightarrow> 'a option" where
  "arrayAt xs i = (if 0 \<le> i \<and> nat i < length xs then Some (xs ! nat i) else None)"

text \<open>The elements \<open>xs[i]\<close> for \<open>starts[cc] \<le> i < starts[cc+1]\<close>, in this order.\<close>

definition ccRange :: "'a list \<Rightarrow> int list \<Rightarrow> int \<Rightarrow> 'a list option" where
  "ccRange xs starts cc =
     (case (arrayAt starts cc, arrayAt starts (cc + 1)) of
        (Some a, Some b) \<Rightarrow>
          if list_all (\<lambda>i. 0 \<le> i \<and> nat i < length xs) [a..b - 1]
          then Some (map (\<lambda>i. xs ! nat i) [a..b - 1]) else None
      | _ \<Rightarrow> None)"

text \<open>
  The body of the first loop of \<open>constructInitByCC\<close>: the node is created without
  \<open>pureNewNode\<close>, so no observer is told.
\<close>

definition cc_node :: "Graph \<Rightarrow> node \<Rightarrow> Graph \<times> node NodeArray \<Rightarrow> Graph \<times> node NodeArray" where
  "cc_node G vG st =
     (let (g, mapNode) = st;
          (g1, v) = allocNode (m_nodeIdCount g) g;
          g2 = g1\<lparr> m_nodeIdCount := int32 (m_nodeIdCount g1 + 1) \<rparr>;
          g3 = g2\<lparr> nodes := pushBack v (nodes g2) \<rparr>;
          g4 = updNode v (\<lambda>n. n\<lparr> m_indeg := m_indeg (nodeMem G vG) \<rparr>) g3;
          g5 = updNode v (\<lambda>n. n\<lparr> m_outdeg := m_outdeg (nodeMem G vG) \<rparr>) g4
      in (g5, putNode G vG v mapNode))"

text \<open>The body of the second loop of \<open>constructInitByCC\<close>.\<close>

definition cc_edge :: "Graph \<Rightarrow> node NodeArray \<Rightarrow> edge \<Rightarrow> Graph \<times> edge EdgeArray
    \<Rightarrow> Graph \<times> edge EdgeArray" where
  "cc_edge G mapNode eG st =
     (let (g, mapEdge) = st;
          v = atNode G mapNode (source G eG);
          w = atNode G mapNode (target G eG);
          (g1, eC) = allocEdge v w nullptr nullptr (m_edgeIdCount g) g;
          g2 = g1\<lparr> edges := pushBack eC (edges g1) \<rparr>;
          (g3, adjSrc) = allocAdjOf eC (shl1 (m_edgeIdCount g2)) g2;
          (g4, adjTgt) = allocAdjOf eC (shl1 (m_edgeIdCount g3) OR 1) g3;
          g5 = updAdj adjSrc (\<lambda>a. a\<lparr> m_twin := adjTgt \<rparr>)
                 (updEdge eC (\<lambda>x. x\<lparr> m_adjSrc := adjSrc \<rparr>) g4);
          g6 = updAdj adjTgt (\<lambda>a. a\<lparr> m_twin := adjSrc \<rparr>)
                 (updEdge eC (\<lambda>x. x\<lparr> m_adjTgt := adjTgt \<rparr>) g5);
          g7 = updAdj adjSrc (\<lambda>a. a\<lparr> m_node := v \<rparr>) g6;
          g8 = updAdj adjTgt (\<lambda>a. a\<lparr> m_node := w \<rparr>) g7
      in (g8\<lparr> m_edgeIdCount := int32 (m_edgeIdCount g8 + 1) \<rparr>, putEdge G eG eC mapEdge))"

text \<open>
  The body of the inner loop of the third loop of \<open>constructInitByCC\<close>; \<open>e\<close> is
  dereferenced.
\<close>

definition cc_adj :: "Graph \<Rightarrow> edge EdgeArray \<Rightarrow> node \<Rightarrow> adjEntry \<Rightarrow> Graph \<Rightarrow> Graph option" where
  "cc_adj G mapEdge v adjG g =
     (let eG = theEdge G adjG;
          e = atEdge G mapEdge eG
      in if e = nullptr then None
         else
           (let adj = (if adjG = adjSource G eG then adjSource g e else adjTarget g e)
            in Some (updNode v (\<lambda>n. n\<lparr> adjEdges := pushBack adj (adjEdges n) \<rparr>) g)))"

definition cc_rotation :: "Graph \<Rightarrow> node NodeArray \<Rightarrow> edge EdgeArray \<Rightarrow> node \<Rightarrow> Graph
    \<Rightarrow> Graph option" where
  "cc_rotation G mapNode mapEdge vG g =
     foldOpt (cc_adj G mapEdge (atNode G mapNode vG)) (adjEdges (nodeMem G vG)) g"

text \<open>
  \<open>void Graph::constructInitByCC(const CCsInfo &info, int cc, NodeArray<node> &mapNode,
  EdgeArray<edge> &mapEdge)\<close>; \<open>G\<close> is the graph of \<open>info\<close>, another graph than the one
  that is built. The two maps are not initialised here.
\<close>

definition constructInitByCC :: "Graph \<Rightarrow> CCsInfo \<Rightarrow> int \<Rightarrow> node NodeArray \<Rightarrow> edge EdgeArray
    \<Rightarrow> Graph \<Rightarrow> (Graph \<times> node NodeArray \<times> edge EdgeArray) option" where
  "constructInitByCC G info cc mapNode mapEdge g =
     (let g0 = dropElements g in
      case (ccRange (m_nodes info) (m_startNode info) cc,
            ccRange (m_edges info) (m_startEdge info) cc) of
        (Some vs, Some es) \<Rightarrow>
          (let (g1, mapNode1) = fold (cc_node G) vs (g0, mapNode);
               (g2, mapEdge1) = fold (cc_edge G mapNode1) es (g1, mapEdge)
           in case foldOpt (cc_rotation G mapNode1 mapEdge1) vs g2 of
                None \<Rightarrow> None
              | Some g3 \<Rightarrow>
                  (case setTableSizes g3 of
                     None \<Rightarrow> None
                   | Some g4 \<Rightarrow> Some (reinitArrays g4, mapNode1, mapEdge1)))
      | _ \<Rightarrow> None)"

text \<open>
  The body of the first loop of \<open>constructInitByNodes\<close>: the edges of the entries with an
  even index are collected.
\<close>

definition evenEdges :: "Graph \<Rightarrow> node \<Rightarrow> edge list" where
  "evenEdges G vG =
     map (\<lambda>adjG. m_edge (adjMem G adjG))
       (filter (\<lambda>adjG. m_id (adjMem G adjG) AND 1 = 0) (adjEdges (nodeMem G vG)))"

definition byNodes_node :: "Graph \<Rightarrow> node \<Rightarrow> Graph \<times> node NodeArray \<times> edge list
    \<Rightarrow> Graph \<times> node NodeArray \<times> edge list" where
  "byNodes_node G vG st =
     (let (g, mapNode, adjEdgesList) = st;
          (g1, mapNode1) = copy_node G vG (g, mapNode)
      in (g1, mapNode1, adjEdgesList @ evenEdges G vG))"

text \<open>
  \<open>void Graph::constructInitByNodes(const Graph &G, const List<node> &nodeList,
  NodeArray<node> &mapNode, EdgeArray<edge> &mapEdge)\<close>; the nodes of the list are nodes
  of \<open>G\<close>, another graph than the one that is built.
\<close>

definition constructInitByNodes :: "Graph \<Rightarrow> node list \<Rightarrow> node NodeArray \<Rightarrow> edge EdgeArray
    \<Rightarrow> Graph \<Rightarrow> (Graph \<times> node NodeArray \<times> edge EdgeArray) option" where
  "constructInitByNodes G nodeList mapNode mapEdge g =
     (let g0 = (dropElements g)\<lparr> m_nodeArrayTableSize := MIN_NODE_TABLE_SIZE \<rparr>;
          (g1, mapNode1, adjEdgesList) = fold (byNodes_node G) nodeList (g0, mapNode, []);
          (g2, mapEdge1) = fold (copy_edge G mapNode1) adjEdgesList (g1, mapEdge)
      in case foldOpt (copy_rotation G mapNode1 mapEdge1) nodeList (g2, (\<lambda>_. False)) of
           None \<Rightarrow> None
         | Some (g3, mark) \<Rightarrow>
             (case setTableSizes g3 of
                None \<Rightarrow> None
              | Some g4 \<Rightarrow> Some (reinitArrays g4, mapNode1, mapEdge1)))"

text \<open>
  Modelled from the spec: \<open>EdgeElement::opposite(v)\<close> (declared outside the source file)
  is the other end of the edge.
\<close>

definition opposite :: "Graph \<Rightarrow> edge \<Rightarrow> node \<Rightarrow> node" where
  "opposite G e v = (if v = m_src (edgeMem G e) then m_tgt (edgeMem G e) else m_src (edgeMem G e))"

text \<open>
  The first loop of \<open>constructInitByActiveNodes\<close>: only the entries whose other end is
  active count, and of these the edges of the entries with an even index are collected.
\<close>

definition activeEntries :: "Graph \<Rightarrow> bool NodeArray \<Rightarrow> node \<Rightarrow> adjEntry list" where
  "activeEntries G activeNodes vG =
     filter (\<lambda>adjG. atNode G activeNodes (opposite G (m_edge (adjMem G adjG)) vG))
       (adjEdges (nodeMem G vG))"

definition activeEvenEdges :: "Graph \<Rightarrow> bool NodeArray \<Rightarrow> node \<Rightarrow> edge list" where
  "activeEvenEdges G activeNodes vG =
     map (\<lambda>adjG. m_edge (adjMem G adjG))
       (filter (\<lambda>adjG. m_id (adjMem G adjG) AND 1 = 0) (activeEntries G activeNodes vG))"

definition byActive_node :: "Graph \<Rightarrow> bool NodeArray \<Rightarrow> node \<Rightarrow> Graph \<times> node NodeArray \<times> edge list
    \<Rightarrow> Graph \<times> node NodeArray \<times> edge list" where
  "byActive_node G activeNodes vG st =
     (let (g, mapNode, adjEdgesList) = st;
          (g1, v) = pureNewNode g;
          act = activeEntries G activeNodes vG;
          outCount = int (length (filter (\<lambda>adjG. source G (m_edge (adjMem G adjG)) = vG) act));
          inCount = int (length (filter (\<lambda>adjG. source G (m_edge (adjMem G adjG)) \<noteq> vG) act));
          g2 = updNode v (\<lambda>n. n\<lparr> m_indeg := inCount \<rparr>) g1;
          g3 = updNode v (\<lambda>n. n\<lparr> m_outdeg := outCount \<rparr>) g2
      in (g3, putNode G vG v mapNode, adjEdgesList @ activeEvenEdges G activeNodes vG))"

text \<open>The body of the second loop of \<open>constructInitByActiveNodes\<close>.\<close>

definition byActive_edge :: "Graph \<Rightarrow> node NodeArray \<Rightarrow> edge \<Rightarrow> Graph \<times> edge EdgeArray
    \<Rightarrow> Graph \<times> edge EdgeArray" where
  "byActive_edge G mapNode eG st =
     (let (g, mapEdge) = st;
          v = atNode G mapNode (source G eG);
          w = atNode G mapNode (target G eG);
          (g1, adjSrc) = allocAdj v g;
          g2 = updNode v (\<lambda>n. n\<lparr> adjEdges := pushBack adjSrc (adjEdges n) \<rparr>) g1;
          (g3, adjTgt) = allocAdj w g2;
          g4 = updNode w (\<lambda>n. n\<lparr> adjEdges := pushBack adjTgt (adjEdges n) \<rparr>) g3;
          g5 = updAdj adjSrc (\<lambda>a. a\<lparr> m_twin := adjTgt \<rparr>) g4;
          g6 = updAdj adjTgt (\<lambda>a. a\<lparr> m_twin := adjSrc \<rparr>) g5;
          g7 = updAdj adjSrc (\<lambda>a. a\<lparr> m_id := shl1 (m_edgeIdCount g6) \<rparr>) g6;
          g8 = updAdj adjTgt (\<lambda>a. a\<lparr> m_id := m_id (adjMem g7 adjSrc) OR 1 \<rparr>) g7;
          (g9, e) = allocEdge v w adjSrc adjTgt (m_edgeIdCount g8) g8;
          g10 = g9\<lparr> m_edgeIdCount := int32 (m_edgeIdCount g9 + 1) \<rparr>;
          g11 = g10\<lparr> edges := pushBack e (edges g10) \<rparr>
      in (setEdgeOfPair adjSrc adjTgt e g11, putEdge G eG e mapEdge))"

text \<open>
  \<open>void Graph::constructInitByActiveNodes(const List<node> &nodeList,
  const NodeArray<bool> &activeNodes, NodeArray<node> &mapNode, EdgeArray<edge> &mapEdge)\<close>;
  \<open>G\<close> is the graph the nodes of the list belong to, another graph than the one that is
  built.
\<close>

definition constructInitByActiveNodes :: "Graph \<Rightarrow> node list \<Rightarrow> bool NodeArray \<Rightarrow> node NodeArray
    \<Rightarrow> edge EdgeArray \<Rightarrow> Graph \<Rightarrow> (Graph \<times> node NodeArray \<times> edge EdgeArray) option" where
  "constructInitByActiveNodes G nodeList activeNodes mapNode mapEdge g =
     (let g0 = (dropElements g)\<lparr> m_nodeArrayTableSize := MIN_NODE_TABLE_SIZE \<rparr>;
          (g1, mapNode1, adjEdgesList) =
             fold (byActive_node G activeNodes) nodeList (g0, mapNode, []);
          (g2, mapEdge1) = fold (byActive_edge G mapNode1) adjEdgesList (g1, mapEdge)
      in case setTableSizes g2 of
           None \<Rightarrow> None
         | Some g3 \<Rightarrow> Some (reinitArrays g3, mapNode1, mapEdge1))"

subsection \<open>Edges and entries at a position of a rotation\<close>

text \<open>\<open>edge Graph::newEdge(adjEntry adjStart, adjEntry adjEnd, Direction dir)\<close>\<close>

definition newEdge_adj :: "adjEntry \<Rightarrow> adjEntry \<Rightarrow> Direction \<Rightarrow> Graph \<Rightarrow> Graph \<times> edge" where
  "newEdge_adj adjStart adjEnd dir g =
     (let v = theNode g adjStart;
          w = theNode g adjEnd;
          (g1, adjTgt) = allocAdj w g;
          (g2, adjSrc) = allocAdj v g1;
          g3 = updNode w (\<lambda>n. n\<lparr> adjEdges := insertAt adjTgt adjEnd dir (adjEdges n) \<rparr>) g2;
          g4 = updNode v (\<lambda>n. n\<lparr> adjEdges := insertAt adjSrc adjStart dir (adjEdges n) \<rparr>) g3;
          g5 = updNode w (\<lambda>n. n\<lparr> m_indeg := m_indeg n + 1 \<rparr>) g4;
          g6 = updNode v (\<lambda>n. n\<lparr> m_outdeg := m_outdeg n + 1 \<rparr>) g5;
          g7 = updAdj adjSrc (\<lambda>a. a\<lparr> m_twin := adjTgt \<rparr>) g6;
          g8 = updAdj adjTgt (\<lambda>a. a\<lparr> m_twin := adjSrc \<rparr>) g7;
          (g9, e) = createEdgeElement v w adjSrc adjTgt g8
      in (setEdgeOfPair adjSrc adjTgt e g9, e))"

text \<open>\<open>edge Graph::newEdge(node v, adjEntry adjEnd)\<close>\<close>

definition newEdge_nodeAdj :: "node \<Rightarrow> adjEntry \<Rightarrow> Graph \<Rightarrow> Graph \<times> edge" where
  "newEdge_nodeAdj v adjEnd g =
     (let w = theNode g adjEnd;
          (g1, adjTgt) = allocAdj w g;
          g2 = updNode w (\<lambda>n. n\<lparr> adjEdges := insertAfter adjTgt adjEnd (adjEdges n) \<rparr>) g1;
          g3 = updNode w (\<lambda>n. n\<lparr> m_indeg := m_indeg n + 1 \<rparr>) g2;
          (g4, adjSrc) = allocAdj v g3;
          g5 = updNode v (\<lambda>n. n\<lparr> adjEdges := pushBack adjSrc (adjEdges n) \<rparr>) g4;
          g6 = updNode v (\<lambda>n. n\<lparr> m_outdeg := m_outdeg n + 1 \<rparr>) g5;
          g7 = updAdj adjSrc (\<lambda>a. a\<lparr> m_twin := adjTgt \<rparr>) g6;
          g8 = updAdj adjTgt (\<lambda>a. a\<lparr> m_twin := adjSrc \<rparr>) g7;
          (g9, e) = createEdgeElement v w adjSrc adjTgt g8
      in (setEdgeOfPair adjSrc adjTgt e g9, e))"

text \<open>\<open>edge Graph::newEdge(adjEntry adjStart, node v)\<close>\<close>

definition newEdge_adjNode :: "adjEntry \<Rightarrow> node \<Rightarrow> Graph \<Rightarrow> Graph \<times> edge" where
  "newEdge_adjNode adjStart v g =
     (let w = theNode g adjStart;
          (g1, adjSrc) = allocAdj w g;
          g2 = updNode w (\<lambda>n. n\<lparr> adjEdges := insertAfter adjSrc adjStart (adjEdges n) \<rparr>) g1;
          g3 = updNode w (\<lambda>n. n\<lparr> m_outdeg := m_outdeg n + 1 \<rparr>) g2;
          (g4, adjTgt) = allocAdj v g3;
          g5 = updNode v (\<lambda>n. n\<lparr> adjEdges := pushBack adjTgt (adjEdges n) \<rparr>) g4;
          g6 = updNode v (\<lambda>n. n\<lparr> m_indeg := m_indeg n + 1 \<rparr>) g5;
          g7 = updAdj adjSrc (\<lambda>a. a\<lparr> m_twin := adjTgt \<rparr>) g6;
          g8 = updAdj adjTgt (\<lambda>a. a\<lparr> m_twin := adjSrc \<rparr>) g7;
          (g9, e) = createEdgeElement w v adjSrc adjTgt g8
      in (setEdgeOfPair adjSrc adjTgt e g9, e))"

text \<open>
  \<open>GraphList::move(pX, L)\<close>: \<open>adj\<close> leaves the rotation of \<open>old\<close> and is appended to the
  rotation of \<open>v\<close>.
\<close>

definition moveAdjBack :: "adjEntry \<Rightarrow> node \<Rightarrow> node \<Rightarrow> Graph \<Rightarrow> Graph" where
  "moveAdjBack adj old v g =
     (let g1 = updNode old (\<lambda>n. n\<lparr> adjEdges := del adj (adjEdges n) \<rparr>) g
      in updNode v (\<lambda>n. n\<lparr> adjEdges := pushBack adj (adjEdges n) \<rparr>) g1)"

text \<open>
  \<open>void Graph::move(edge e, adjEntry adjSrc, Direction dirSrc, adjEntry adjTgt,
  Direction dirTgt)\<close>; the four assertions on the entries come first.
\<close>

definition move :: "edge \<Rightarrow> adjEntry \<Rightarrow> Direction \<Rightarrow> adjEntry \<Rightarrow> Direction \<Rightarrow> Graph
    \<Rightarrow> error + Graph" where
  "move e adjSrc dirSrc adjTgt dirTgt g =
     (if adjSrc = m_adjSrc (edgeMem g e) \<or> adjSrc = m_adjTgt (edgeMem g e)
         \<or> adjTgt = m_adjSrc (edgeMem g e) \<or> adjTgt = m_adjTgt (edgeMem g e)
      then Inl AssertionFailed
      else
        (let v = m_node (adjMem g adjSrc);
             w = m_node (adjMem g adjTgt);
             adj1 = m_adjSrc (edgeMem g e);
             adj2 = m_adjTgt (edgeMem g e);
             g1 = moveAdjList adj1 (m_src (edgeMem g e)) v adjSrc dirSrc g;
             g2 = moveAdjList adj2 (m_tgt (edgeMem g1 e)) w adjTgt dirTgt g1;
             g3 = updNode (m_src (edgeMem g2 e)) (\<lambda>n. n\<lparr> m_outdeg := m_outdeg n - 1 \<rparr>) g2;
             g4 = updNode (m_tgt (edgeMem g3 e)) (\<lambda>n. n\<lparr> m_indeg := m_indeg n - 1 \<rparr>) g3;
             g5 = updEdge e (\<lambda>x. x\<lparr> m_src := v \<rparr>) g4;
             g6 = updAdj adj1 (\<lambda>a. a\<lparr> m_node := v \<rparr>) g5;
             g7 = updEdge e (\<lambda>x. x\<lparr> m_tgt := w \<rparr>) g6;
             g8 = updAdj adj2 (\<lambda>a. a\<lparr> m_node := w \<rparr>) g7;
             g9 = updNode v (\<lambda>n. n\<lparr> m_outdeg := m_outdeg n + 1 \<rparr>) g8
         in Inr (updNode w (\<lambda>n. n\<lparr> m_indeg := m_indeg n + 1 \<rparr>) g9)))"

text \<open>\<open>void Graph::moveTarget(edge e, node v)\<close>\<close>

definition moveTarget_node :: "edge \<Rightarrow> node \<Rightarrow> Graph \<Rightarrow> Graph" where
  "moveTarget_node e v g =
     (let adj = m_adjTgt (edgeMem g e);
          g1 = moveAdjBack adj (m_tgt (edgeMem g e)) v g;
          g2 = updNode (m_tgt (edgeMem g1 e)) (\<lambda>n. n\<lparr> m_indeg := m_indeg n - 1 \<rparr>) g1;
          g3 = updEdge e (\<lambda>x. x\<lparr> m_tgt := v \<rparr>) g2;
          g4 = updAdj adj (\<lambda>a. a\<lparr> m_node := v \<rparr>) g3
      in updNode v (\<lambda>n. n\<lparr> m_indeg := m_indeg n + 1 \<rparr>) g4)"

text \<open>\<open>void Graph::moveSource(edge e, node v)\<close>\<close>

definition moveSource_node :: "edge \<Rightarrow> node \<Rightarrow> Graph \<Rightarrow> Graph" where
  "moveSource_node e v g =
     (let adj = m_adjSrc (edgeMem g e);
          g1 = moveAdjBack adj (m_src (edgeMem g e)) v g;
          g2 = updNode (m_src (edgeMem g1 e)) (\<lambda>n. n\<lparr> m_outdeg := m_outdeg n - 1 \<rparr>) g1;
          g3 = updEdge e (\<lambda>x. x\<lparr> m_src := v \<rparr>) g2;
          g4 = updAdj adj (\<lambda>a. a\<lparr> m_node := v \<rparr>) g3
      in updNode v (\<lambda>n. n\<lparr> m_outdeg := m_outdeg n + 1 \<rparr>) g4)"

text \<open>\<open>void Graph::moveAdj(adjEntry adj, node w)\<close>\<close>

definition moveAdj :: "adjEntry \<Rightarrow> node \<Rightarrow> Graph \<Rightarrow> Graph" where
  "moveAdj adj w g =
     (let v = m_node (adjMem g adj);
          g1 = moveAdjBack adj v w g;
          g2 = updAdj adj (\<lambda>a. a\<lparr> m_node := w \<rparr>) g1;
          e = m_edge (adjMem g2 adj)
      in if v = m_src (edgeMem g2 e) then
           (let g3 = updNode v (\<lambda>n. n\<lparr> m_outdeg := m_outdeg n - 1 \<rparr>) g2;
                g4 = updEdge e (\<lambda>x. x\<lparr> m_src := w \<rparr>) g3
            in updNode w (\<lambda>n. n\<lparr> m_outdeg := m_outdeg n + 1 \<rparr>) g4)
         else
           (let g3 = updNode v (\<lambda>n. n\<lparr> m_indeg := m_indeg n - 1 \<rparr>) g2;
                g4 = updEdge e (\<lambda>x. x\<lparr> m_tgt := w \<rparr>) g3
            in updNode w (\<lambda>n. n\<lparr> m_indeg := m_indeg n + 1 \<rparr>) g4))"

text \<open>
  The loop of \<open>splitNode\<close>:
  \<open>for (adj = adjStartRight; adj != adjStartLeft; adj = adjSucc)\<close>. A null \<open>adj\<close> cannot
  be dereferenced, and a walk that never reaches \<open>adjStartLeft\<close> does not return: both
  are \<open>None\<close>.
\<close>

partial_function (option) splitNode_loop :: "adjEntry \<Rightarrow> node \<Rightarrow> adjEntry \<Rightarrow> Graph \<Rightarrow> Graph option" where
  "splitNode_loop adjStartLeft w adj g =
     (if adj = adjStartLeft then Some g
      else if adj = nullptr then None
      else
        (let adjSucc = cyclicSucc g adj
         in splitNode_loop adjStartLeft w adjSucc (moveAdj adj w g)))"

text \<open>
  \<open>node Graph::splitNode(adjEntry adjStartLeft, adjEntry adjStartRight)\<close>; the assertion
  that the two entries are at the same node comes first.
\<close>

definition splitNode :: "adjEntry \<Rightarrow> adjEntry \<Rightarrow> Graph \<Rightarrow> (error + Graph \<times> node) option" where
  "splitNode adjStartLeft adjStartRight g =
     (if theNode g adjStartLeft \<noteq> theNode g adjStartRight then Some (Inl AssertionFailed)
      else
        (let (g1, w) = newNode g in
         case splitNode_loop adjStartLeft w adjStartRight g1 of
           None \<Rightarrow> None
         | Some g2 \<Rightarrow> Some (Inr (fst (newEdge_adj adjStartLeft adjStartRight before g2), w))))"

text \<open>
  \<open>void Graph::unsplit(node u)\<close>; \<open>firstAdj\<close> and \<open>lastAdj\<close> are the two ends of the
  rotation and are dereferenced: a node without entries gives \<open>None\<close>.
\<close>

definition unsplit_node :: "node \<Rightarrow> Graph \<Rightarrow> (error + Graph) option" where
  "unsplit_node u g =
     (if adjEdges (nodeMem g u) = [] then None
      else
        (let eIn = theEdge g (hd (adjEdges (nodeMem g u)));
             eOut = theEdge g (last (adjEdges (nodeMem g u)))
         in if target g eIn \<noteq> u then Some (unsplit eOut eIn g) else Some (unsplit eIn eOut g)))"

text \<open>\<open>void Graph::reverseAllEdges()\<close>\<close>

definition reverseAllEdges :: "Graph \<Rightarrow> Graph" where
  "reverseAllEdges g = fold reverseEdge (edges g) g"

text \<open>
  \<open>void Graph::reverseAdjEdges()\<close>. Modelled from the spec: \<open>reverseAdjEdges(v)\<close> (declared
  outside the source file) reverses the rotation of \<open>v\<close>.
\<close>

definition reverseAdjEdges :: "Graph \<Rightarrow> Graph" where
  "reverseAdjEdges g = fold (\<lambda>v. updNode v (\<lambda>n. n\<lparr> adjEdges := rev (adjEdges n) \<rparr>)) (nodes g) g"

section \<open>The operations of the interface\<close>

text \<open>
  The functions of the source file that change a graph, as one type, and their dispatch:
  the edit operations above and the rest of the interface. The functions declared
  \<open>const\<close> that only read the graph (\<open>chooseNode\<close>, \<open>chooseEdge\<close>, \<open>searchEdge\<close>,
  \<open>genus\<close>, \<open>consistencyCheck\<close>, the constructor of \<open>CCsInfo\<close>) have no entry. The two
  helpers \<open>pureNewNode\<close> and \<open>copy\<close> have none either: they are steps of the copying
  functions, which assign the table sizes after them. A call that fails an assertion,
  dereferences a null pointer or does not return has no successor state.
\<close>

datatype publicOp =
    Edit operation
  | CreateEdgeElement node node adjEntry adjEntry
  | NewEdgeAdj adjEntry adjEntry Direction
  | NewEdgeNodeAdj node adjEntry
  | NewEdgeAdjNode adjEntry node
  | Move edge adjEntry Direction adjEntry Direction
  | MoveTargetNode edge node
  | MoveSourceNode edge node
  | MoveAdj adjEntry node
  | SplitNode adjEntry adjEntry
  | UnsplitNode node
  | ReverseAllEdges
  | ReverseAdjEdges
  | Clear
  | OperatorAssign "Graph option"
  | Assign "Graph option" "node NodeArray" "edge EdgeArray"
  | Construct "Graph option" "node NodeArray" "edge EdgeArray"
  | ConstructInitByCC Graph CCsInfo int "node NodeArray" "edge EdgeArray"
  | ConstructInitByNodes Graph "node list" "node NodeArray" "edge EdgeArray"
  | ConstructInitByActiveNodes Graph "node list" "bool NodeArray" "node NodeArray" "edge EdgeArray"
  | UnregisterNodeArray nat
  | UnregisterEdgeArray nat
  | UnregisterAdjArray nat
  | UnregisterStructure nat
  | MoveRegisterNodeArray nat arrayRef
  | MoveRegisterEdgeArray nat arrayRef
  | MoveRegisterAdjArray nat arrayRef
  | ReinitArrays
  | ReinitStructures
  | ResetAdjEntryIndex int int
  | ResetEdgeIdCount bool int
  | Destroy

fun runPublicOp :: "publicOp \<Rightarrow> Graph \<Rightarrow> Graph option" where
  "runPublicOp (Edit op) g = runOp op g"
| "runPublicOp (CreateEdgeElement v w adjSrc adjTgt) g =
     Some (fst (createEdgeElement v w adjSrc adjTgt g))"
| "runPublicOp (NewEdgeAdj adjStart adjEnd dir) g = Some (fst (newEdge_adj adjStart adjEnd dir g))"
| "runPublicOp (NewEdgeNodeAdj v adjEnd) g = Some (fst (newEdge_nodeAdj v adjEnd g))"
| "runPublicOp (NewEdgeAdjNode adjStart v) g = Some (fst (newEdge_adjNode adjStart v g))"
| "runPublicOp (Move e adjSrc dirSrc adjTgt dirTgt) g =
     (case move e adjSrc dirSrc adjTgt dirTgt g of Inl _ \<Rightarrow> None | Inr g' \<Rightarrow> Some g')"
| "runPublicOp (MoveTargetNode e v) g = Some (moveTarget_node e v g)"
| "runPublicOp (MoveSourceNode e v) g = Some (moveSource_node e v g)"
| "runPublicOp (MoveAdj adj w) g = Some (moveAdj adj w g)"
| "runPublicOp (SplitNode adjStartLeft adjStartRight) g =
     (case splitNode adjStartLeft adjStartRight g of
        Some (Inr (g', w)) \<Rightarrow> Some g'
      | _ \<Rightarrow> None)"
| "runPublicOp (UnsplitNode u) g =
     (case unsplit_node u g of Some (Inr g') \<Rightarrow> Some g' | _ \<Rightarrow> None)"
| "runPublicOp ReverseAllEdges g = Some (reverseAllEdges g)"
| "runPublicOp ReverseAdjEdges g = Some (reverseAdjEdges g)"
| "runPublicOp Clear g = Some (clear g)"
| "runPublicOp (OperatorAssign src) g = operator_assign src g"
| "runPublicOp (Assign src mapNode mapEdge) g = map_option fst (assign src mapNode mapEdge g)"
| "runPublicOp (Construct src mapNode mapEdge) g = map_option fst (construct src mapNode mapEdge g)"
| "runPublicOp (ConstructInitByCC G info cc mapNode mapEdge) g =
     map_option fst (constructInitByCC G info cc mapNode mapEdge g)"
| "runPublicOp (ConstructInitByNodes G nodeList mapNode mapEdge) g =
     map_option fst (constructInitByNodes G nodeList mapNode mapEdge g)"
| "runPublicOp (ConstructInitByActiveNodes G nodeList activeNodes mapNode mapEdge) g =
     map_option fst (constructInitByActiveNodes G nodeList activeNodes mapNode mapEdge g)"
| "runPublicOp (UnregisterNodeArray it) g = Some (unregisterNodeArray it g)"
| "runPublicOp (UnregisterEdgeArray it) g = Some (unregisterEdgeArray it g)"
| "runPublicOp (UnregisterAdjArray it) g = Some (unregisterAdjArray it g)"
| "runPublicOp (UnregisterStructure it) g = Some (unregisterStructure it g)"
| "runPublicOp (MoveRegisterNodeArray it a) g = Some (moveRegisterNodeArray it a g)"
| "runPublicOp (MoveRegisterEdgeArray it a) g = Some (moveRegisterEdgeArray it a g)"
| "runPublicOp (MoveRegisterAdjArray it a) g = Some (moveRegisterAdjArray it a g)"
| "runPublicOp ReinitArrays g = Some (reinitArrays g)"
| "runPublicOp ReinitStructures g = Some (reinitStructures g)"
| "runPublicOp (ResetAdjEntryIndex newIndex oldIndex) g = Some (resetAdjEntryIndex newIndex oldIndex g)"
| "runPublicOp (ResetEdgeIdCount checks maxId) g =
     (case resetEdgeIdCount checks maxId g of Inl _ \<Rightarrow> None | Inr g' \<Rightarrow> Some g')"
| "runPublicOp Destroy g = Some (destroyGraph g)"

text \<open>
  The operations that build the graph anew and assign the table sizes with \<open>nextPower2\<close>.
\<close>

fun isCopy :: "publicOp \<Rightarrow> bool" where
  "isCopy (OperatorAssign src) = True"
| "isCopy (Assign src mapNode mapEdge) = True"
| "isCopy (Construct src mapNode mapEdge) = True"
| "isCopy (ConstructInitByCC G info cc mapNode mapEdge) = True"
| "isCopy (ConstructInitByNodes G nodeList mapNode mapEdge) = True"
| "isCopy (ConstructInitByActiveNodes G nodeList activeNodes mapNode mapEdge) = True"
| "isCopy _ = False"

text \<open>
  A table size covers an id count: it is a power of two, at least the minimum and at
  least the id count. It exceeds the id count minimally when it is the smallest power of
  two, at least the minimum, that is greater than the id count.
\<close>

definition tableCovers :: "int \<Rightarrow> int \<Rightarrow> int \<Rightarrow> bool" where
  "tableCovers minSize idCount tableSize \<longleftrightarrow>
     (\<exists>k. tableSize = 2 ^ k) \<and> minSize \<le> tableSize \<and> 0 \<le> idCount \<and> idCount \<le> tableSize"

definition tableExceeds :: "int \<Rightarrow> int \<Rightarrow> int \<Rightarrow> bool" where
  "tableExceeds minSize idCount tableSize \<longleftrightarrow>
     (\<exists>k. tableSize = 2 ^ k) \<and> minSize \<le> tableSize \<and> 0 \<le> idCount \<and> idCount < tableSize
     \<and> (tableSize = minSize \<or> tableSize div 2 \<le> idCount)"

definition tableBounds :: "Graph \<Rightarrow> bool" where
  "tableBounds g \<longleftrightarrow>
     tableCovers MIN_NODE_TABLE_SIZE (m_nodeIdCount g) (m_nodeArrayTableSize g)
     \<and> tableCovers MIN_EDGE_TABLE_SIZE (m_edgeIdCount g) (m_edgeArrayTableSize g)
     \<and> list_all (\<lambda>a. m_nodeArrayTableSize g \<le> a_size (arrMem g NodeArrayKind a)) (m_regNodeArrays g)
     \<and> list_all (\<lambda>a. m_edgeArrayTableSize g \<le> a_size (arrMem g EdgeArrayKind a)) (m_regEdgeArrays g)
     \<and> list_all (\<lambda>a. 2 * m_edgeArrayTableSize g \<le> a_size (arrMem g AdjEntryArrayKind a))
          (m_regAdjArrays g)"

text \<open>
  The id counts are below \<open>2^29\<close> and the table sizes at most \<open>2^29\<close>: the 32-bit
  arithmetic of the counters and of the doubled edge table size does not wrap.
\<close>

definition sizesInRange :: "Graph \<Rightarrow> bool" where
  "sizesInRange g \<longleftrightarrow> m_nodeArrayTableSize g \<le> 536870912 \<and> m_edgeArrayTableSize g \<le> 536870912"

definition inRange :: "Graph \<Rightarrow> bool" where
  "inRange g \<longleftrightarrow> m_nodeIdCount g < 536870912 \<and> m_edgeIdCount g < 536870912 \<and> sizesInRange g"

definition noArrays :: "Graph \<Rightarrow> bool" where
  "noArrays g \<longleftrightarrow> m_regNodeArrays g = [] \<and> m_regEdgeArrays g = [] \<and> m_regAdjArrays g = []"

text \<open>
  The arguments of an operation are valid for a graph: an explicit index is below
  \<open>2^29\<close>; a copy creates fewer than \<open>2^29\<close> nodes and edges (for \<open>construct\<close>, which does
  not clear the graph, together with the ids in use); \<open>construct\<close>, which does not
  reinitialise the registered arrays, meets no registered array; an array that takes
  the place of another in a registry has the capacity of the table; \<open>resetEdgeIdCount\<close>
  lowers the id count.
\<close>

fun publicOpValid :: "Graph \<Rightarrow> publicOp \<Rightarrow> bool" where
  "publicOpValid g (Edit op) = indexInRange op"
| "publicOpValid g (OperatorAssign src) =
     (case src of None \<Rightarrow> True
      | Some G \<Rightarrow> int (length (nodes G)) < 536870912 \<and> int (length (edges G)) < 536870912)"
| "publicOpValid g (Assign src mapNode mapEdge) =
     (case src of None \<Rightarrow> True
      | Some G \<Rightarrow> int (length (nodes G)) < 536870912 \<and> int (length (edges G)) < 536870912)"
| "publicOpValid g (Construct src mapNode mapEdge) =
     (noArrays g \<and>
      (case src of None \<Rightarrow> True
       | Some G \<Rightarrow> m_nodeIdCount g + int (length (nodes G)) < 536870912
                 \<and> m_edgeIdCount g + int (length (edges G)) < 536870912))"
| "publicOpValid g (ConstructInitByCC G info cc mapNode mapEdge) =
     ((case ccRange (m_nodes info) (m_startNode info) cc of
         None \<Rightarrow> True | Some vs \<Rightarrow> int (length vs) < 536870912)
      \<and> (case ccRange (m_edges info) (m_startEdge info) cc of
         None \<Rightarrow> True | Some es \<Rightarrow> int (length es) < 536870912))"
| "publicOpValid g (ConstructInitByNodes G nodeList mapNode mapEdge) =
     (int (length nodeList) < 536870912
      \<and> int (length (concat (map (evenEdges G) nodeList))) < 536870912)"
| "publicOpValid g (ConstructInitByActiveNodes G nodeList activeNodes mapNode mapEdge) =
     (int (length nodeList) < 536870912
      \<and> int (length (concat (map (activeEvenEdges G activeNodes) nodeList))) < 536870912)"
| "publicOpValid g (MoveRegisterNodeArray it a) =
     (m_nodeArrayTableSize g \<le> a_size (arrMem g NodeArrayKind a))"
| "publicOpValid g (MoveRegisterEdgeArray it a) =
     (m_edgeArrayTableSize g \<le> a_size (arrMem g EdgeArrayKind a))"
| "publicOpValid g (MoveRegisterAdjArray it a) =
     (2 * m_edgeArrayTableSize g \<le> a_size (arrMem g AdjEntryArrayKind a))"
| "publicOpValid g (ResetEdgeIdCount checks maxId) = (- 1 \<le> maxId \<and> maxId < m_edgeIdCount g)"
| "publicOpValid g _ = True"

section \<open>Facts about the tables\<close>

lemma int32_id: "- 2147483648 \<le> x \<Longrightarrow> x < 2147483648 \<Longrightarrow> int32 x = x"
  by (simp add: int32_def)

lemma shl1_id: "- 1073741824 \<le> x \<Longrightarrow> x < 1073741824 \<Longrightarrow> shl1 x = 2 * x"
  by (simp add: shl1_def int32_id)

text \<open>\<open>nextPower2\<close> returns when the id count is below \<open>2^30\<close>: no shift wraps.\<close>

lemma nextPower2_returns:
  assumes "0 < start" "idCount < 1073741824"
  shows "\<exists>r j. nextPower2 start idCount = Some r \<and> idCount < r \<and> r = start * 2 ^ j
           \<and> (j = 0 \<or> r \<le> 2 * idCount)"
  using assms
proof (induction "nat (idCount + 1 - start)" arbitrary: start rule: less_induct)
  case less
  show ?case
  proof (cases "start \<le> idCount")
    case False
    then have "nextPower2 start idCount = Some start"
      by (subst nextPower2.simps) simp
    with False show ?thesis by (intro exI[of _ start] exI[of _ 0]) simp
  next
    case True
    with less.prems have s: "shl1 start = 2 * start" by (simp add: shl1_id)
    have "nat (idCount + 1 - 2 * start) < nat (idCount + 1 - start)"
      using True less.prems by simp
    from less.hyps[OF this] less.prems obtain r j where
      r: "nextPower2 (2 * start) idCount = Some r" "idCount < r" "r = 2 * start * 2 ^ j"
         "j = 0 \<or> r \<le> 2 * idCount" by auto
    have "nextPower2 start idCount = Some r"
      using True r(1) s by (subst nextPower2.simps) simp
    moreover have "r = start * 2 ^ Suc j" using r(3) by simp
    moreover have "r \<le> 2 * idCount" using r(3,4) True by auto
    ultimately show ?thesis using r(2) by blast
  qed
qed

lemma snapshot_frame [simp]:
  "snapshot (g\<lparr> calls := c \<rparr>) = snapshot g"
  "snapshot (g\<lparr> arrMem := m \<rparr>) = snapshot g"
  "snapshot (g\<lparr> m_nodeIdCount := i \<rparr>) = snapshot g"
  "snapshot (g\<lparr> m_edgeIdCount := i \<rparr>) = snapshot g"
  "snapshot (g\<lparr> m_nodeArrayTableSize := i \<rparr>) = snapshot g"
  "snapshot (g\<lparr> m_edgeArrayTableSize := i \<rparr>) = snapshot g"
  by (simp_all add: snapshot_def)

lemma fold_notify:
  "fold (\<lambda>x. notify (f x)) xs g = g\<lparr> calls := calls g @ map (\<lambda>x. (f x, snapshot g)) xs \<rparr>"
  by (induction xs arbitrary: g) (simp_all add: notify_def)

lemma fold_enlargeTable:
  "fold (enlargeTable k n) as g =
     g\<lparr> arrMem := (arrMem g)(k := setSizes n as (arrMem g k)),
        calls := calls g @ map (\<lambda>a. (enlargeTableCall k a n, snapshot g)) as \<rparr>"
proof (induction as arbitrary: g)
  case Nil
  show ?case by (simp add: setSizes_def)
next
  case (Cons a as)
  have *: "setSizes n as ((arrMem g k)(a := (arrMem g k a)\<lparr>a_size := n\<rparr>))
             = setSizes n (a # as) (arrMem g k)"
    by (auto simp: setSizes_def fun_eq_iff)
  have "fold (enlargeTable k n) (a # as) g = fold (enlargeTable k n) as (enlargeTable k n a g)"
    by simp
  also have "\<dots> = (enlargeTable k n a g)\<lparr>
        arrMem := (arrMem (enlargeTable k n a g))
                    (k := setSizes n as (arrMem (enlargeTable k n a g) k)),
        calls := calls (enlargeTable k n a g)
                   @ map (\<lambda>b. (enlargeTableCall k b n, snapshot (enlargeTable k n a g))) as \<rparr>"
    by (rule Cons.IH)
  also have "\<dots> = g\<lparr> arrMem := (arrMem g)(k := setSizes n (a # as) (arrMem g k)),
        calls := calls g @ map (\<lambda>b. (enlargeTableCall k b n, snapshot g)) (a # as) \<rparr>"
    using * by (simp add: enlargeTable_def notify_def updArray_def)
  finally show ?case .
qed

lemma setSizes_size: "a \<in> set as \<Longrightarrow> a_size (setSizes n as m a) = n"
  by (simp add: setSizes_def)

lemma growNodeTable_eq:
  "growNodeTable t g =
     g\<lparr> m_nodeArrayTableSize := t,
        arrMem := (arrMem g)(NodeArrayKind := setSizes t (m_regNodeArrays g) (arrMem g NodeArrayKind)),
        calls := calls g @ map (\<lambda>a. (enlargeTableCall NodeArrayKind a t, snapshot g)) (m_regNodeArrays g) \<rparr>"
  by (simp add: growNodeTable_def Let_def fold_enlargeTable)

lemma growEdgeTable_eq:
  "growEdgeTable t g =
     g\<lparr> m_edgeArrayTableSize := t,
        arrMem := (arrMem g)(EdgeArrayKind := setSizes t (m_regEdgeArrays g) (arrMem g EdgeArrayKind),
                            AdjEntryArrayKind := setSizes (shl1 t) (m_regAdjArrays g) (arrMem g AdjEntryArrayKind)),
        calls := calls g @ map (\<lambda>a. (enlargeTableCall EdgeArrayKind a t, snapshot g)) (m_regEdgeArrays g)
                  @ map (\<lambda>a. (enlargeTableCall AdjEntryArrayKind a (shl1 t), snapshot g)) (m_regAdjArrays g) \<rparr>"
  by (simp add: growEdgeTable_def Let_def fold_enlargeTable)

lemma linkNode_eq:
  "linkNode v g =
     g\<lparr> nodes := nodes g @ [v],
        calls := calls g @ map (\<lambda>obs. (nodeAdded obs v, snapshot (g\<lparr> nodes := nodes g @ [v] \<rparr>)))
                             (m_regStructures g) \<rparr>"
  by (simp add: linkNode_def Let_def fold_notify)

lemma linkEdge_eq:
  "linkEdge e g =
     g\<lparr> edges := edges g @ [e],
        calls := calls g @ map (\<lambda>obs. (edgeAdded obs e, snapshot (g\<lparr> edges := edges g @ [e] \<rparr>)))
                             (m_regStructures g) \<rparr>"
  by (simp add: linkEdge_def Let_def fold_notify)

lemma filter_isEnlarge_map [simp]:
  "filter isEnlargeCall (map (\<lambda>obs. (nodeAdded obs v, s obs)) xs) = []"
  "filter isEnlargeCall (map (\<lambda>obs. (edgeAdded obs v, s obs)) xs) = []"
  by (induction xs) (simp_all add: isEnlargeCall_def)

lemma newAdjPair_eq:
  "newAdjPair v w g =
     (let a1 = nextAdj g; a2 = Suc (nextAdj g);
          m1 = (nodeMem g)(v := (nodeMem g v)\<lparr> adjEdges := adjEdges (nodeMem g v) @ [a1],
                                   m_outdeg := m_outdeg (nodeMem g v) + 1 \<rparr>)
      in (g\<lparr> nextAdj := Suc (Suc (nextAdj g)),
             nodeMem := m1(w := (m1 w)\<lparr> adjEdges := adjEdges (m1 w) @ [a2],
                                            m_indeg := m_indeg (m1 w) + 1 \<rparr>),
             adjMem := (adjMem g)
                (a1 := \<lparr> m_twin = a2, m_edge = nullptr, m_node = v, m_id = 0 \<rparr>,
                 a2 := \<lparr> m_twin = a1, m_edge = nullptr, m_node = w, m_id = 0 \<rparr>) \<rparr>, a1, a2))"
  by (simp add: newAdjPair_def allocAdj_def updNode_def updAdj_def pushBack_def Let_def fun_upd_twist)

section \<open>Explicit indices\<close>

lemma newNode_index_props:
  assumes "0 < m_nodeArrayTableSize g" "0 \<le> m_nodeIdCount g"
  shows "(index < m_nodeIdCount g \<longrightarrow>
          (\<exists>g' v. newNode_index index g = Some (g', v)
            \<and> m_nodeIdCount g' = m_nodeIdCount g \<and> m_nodeArrayTableSize g' = m_nodeArrayTableSize g
            \<and> arrMem g' = arrMem g
            \<and> filter isEnlargeCall (calls g') = filter isEnlargeCall (calls g)))
    \<and> (m_nodeIdCount g \<le> index \<and> index < 1073741824 \<longrightarrow>
          (\<exists>g' v. newNode_index index g = Some (g', v)
            \<and> m_nodeIdCount g' = index + 1
            \<and> (index < m_nodeArrayTableSize g \<longrightarrow>
                m_nodeArrayTableSize g' = m_nodeArrayTableSize g \<and> arrMem g' = arrMem g
                \<and> filter isEnlargeCall (calls g') = filter isEnlargeCall (calls g))
            \<and> (m_nodeArrayTableSize g \<le> index \<longrightarrow>
                nextPower2 (m_nodeArrayTableSize g) index = Some (m_nodeArrayTableSize g')
                \<and> index < m_nodeArrayTableSize g'
                \<and> (\<forall>a \<in> set (m_regNodeArrays g).
                      a_size (arrMem g' NodeArrayKind a) = m_nodeArrayTableSize g'))))"
proof (intro conjI impI)
  assume "index < m_nodeIdCount g"
  then show "\<exists>g' v. newNode_index index g = Some (g', v)
            \<and> m_nodeIdCount g' = m_nodeIdCount g \<and> m_nodeArrayTableSize g' = m_nodeArrayTableSize g
            \<and> arrMem g' = arrMem g
            \<and> filter isEnlargeCall (calls g') = filter isEnlargeCall (calls g)"
    by (simp add: newNode_index_def allocNode_def linkNode_eq Let_def)
next
  assume a: "m_nodeIdCount g \<le> index \<and> index < 1073741824"
  from nextPower2_returns[OF assms(1), of index] a obtain r j where
    r: "nextPower2 (m_nodeArrayTableSize g) index = Some r" "index < r" by blast
  have i: "int32 (index + 1) = index + 1" using assms a by (simp add: int32_id)
  show "\<exists>g' v. newNode_index index g = Some (g', v)
            \<and> m_nodeIdCount g' = index + 1
            \<and> (index < m_nodeArrayTableSize g \<longrightarrow>
                m_nodeArrayTableSize g' = m_nodeArrayTableSize g \<and> arrMem g' = arrMem g
                \<and> filter isEnlargeCall (calls g') = filter isEnlargeCall (calls g))
            \<and> (m_nodeArrayTableSize g \<le> index \<longrightarrow>
                nextPower2 (m_nodeArrayTableSize g) index = Some (m_nodeArrayTableSize g')
                \<and> index < m_nodeArrayTableSize g'
                \<and> (\<forall>a \<in> set (m_regNodeArrays g).
                      a_size (arrMem g' NodeArrayKind a) = m_nodeArrayTableSize g'))"
  proof (cases "index < m_nodeArrayTableSize g")
    case True
    with a i show ?thesis
      by (simp add: newNode_index_def allocNode_def linkNode_eq Let_def)
  next
    case False
    with a i r show ?thesis
      by (simp add: newNode_index_def allocNode_def linkNode_eq growNodeTable_eq Let_def setSizes_size)
  qed
qed

lemma newEdge_index_props:
  assumes "0 < m_edgeArrayTableSize g" "0 \<le> m_edgeIdCount g"
  shows "(index < m_edgeIdCount g \<longrightarrow>
          (\<exists>g' e. newEdge_index v w index g = Some (g', e)
            \<and> m_edgeIdCount g' = m_edgeIdCount g \<and> m_edgeArrayTableSize g' = m_edgeArrayTableSize g
            \<and> arrMem g' = arrMem g
            \<and> filter isEnlargeCall (calls g') = filter isEnlargeCall (calls g)))
    \<and> (m_edgeIdCount g \<le> index \<and> index < 1073741824 \<longrightarrow>
          (\<exists>g' e. newEdge_index v w index g = Some (g', e)
            \<and> m_edgeIdCount g' = index + 1
            \<and> (index < m_edgeArrayTableSize g \<longrightarrow>
                m_edgeArrayTableSize g' = m_edgeArrayTableSize g \<and> arrMem g' = arrMem g
                \<and> filter isEnlargeCall (calls g') = filter isEnlargeCall (calls g))
            \<and> (m_edgeArrayTableSize g \<le> index \<longrightarrow>
                nextPower2 (m_edgeArrayTableSize g) index = Some (m_edgeArrayTableSize g')
                \<and> index < m_edgeArrayTableSize g'
                \<and> (\<forall>a \<in> set (m_regEdgeArrays g).
                      a_size (arrMem g' EdgeArrayKind a) = m_edgeArrayTableSize g')
                \<and> (\<forall>a \<in> set (m_regAdjArrays g).
                      a_size (arrMem g' AdjEntryArrayKind a) = shl1 (m_edgeArrayTableSize g')))))"
proof (intro conjI impI)
  assume "index < m_edgeIdCount g"
  then show "\<exists>g' e. newEdge_index v w index g = Some (g', e)
            \<and> m_edgeIdCount g' = m_edgeIdCount g \<and> m_edgeArrayTableSize g' = m_edgeArrayTableSize g
            \<and> arrMem g' = arrMem g
            \<and> filter isEnlargeCall (calls g') = filter isEnlargeCall (calls g)"
    by (simp add: newEdge_index_def newAdjPair_eq allocEdge_def linkEdge_eq setEdgeOfPair_def
            updAdj_def Let_def)
next
  assume a: "m_edgeIdCount g \<le> index \<and> index < 1073741824"
  from nextPower2_returns[OF assms(1), of index] a obtain r j where
    r: "nextPower2 (m_edgeArrayTableSize g) index = Some r" "index < r" by blast
  have i: "int32 (index + 1) = index + 1" using assms a by (simp add: int32_id)
  show "\<exists>g' e. newEdge_index v w index g = Some (g', e)
            \<and> m_edgeIdCount g' = index + 1
            \<and> (index < m_edgeArrayTableSize g \<longrightarrow>
                m_edgeArrayTableSize g' = m_edgeArrayTableSize g \<and> arrMem g' = arrMem g
                \<and> filter isEnlargeCall (calls g') = filter isEnlargeCall (calls g))
            \<and> (m_edgeArrayTableSize g \<le> index \<longrightarrow>
                nextPower2 (m_edgeArrayTableSize g) index = Some (m_edgeArrayTableSize g')
                \<and> index < m_edgeArrayTableSize g'
                \<and> (\<forall>a \<in> set (m_regEdgeArrays g).
                      a_size (arrMem g' EdgeArrayKind a) = m_edgeArrayTableSize g')
                \<and> (\<forall>a \<in> set (m_regAdjArrays g).
                      a_size (arrMem g' AdjEntryArrayKind a) = shl1 (m_edgeArrayTableSize g')))"
  proof (cases "index < m_edgeArrayTableSize g")
    case True
    with a i show ?thesis
      by (simp add: newEdge_index_def newAdjPair_eq allocEdge_def linkEdge_eq setEdgeOfPair_def
            updAdj_def Let_def)
  next
    case False
    with a i r show ?thesis
      by (simp add: newEdge_index_def newAdjPair_eq allocEdge_def linkEdge_eq setEdgeOfPair_def
            updAdj_def growEdgeTable_eq Let_def setSizes_size)
  qed
qed

text \<open>
  Claim C10. \<open>newNode(index)\<close> and \<open>newEdge(v, w, index)\<close> with an index below the id
  counter leave the counter and the table size as they are and enlarge no registered
  array. With an index at or above the counter (and below \<open>2^30\<close>, so that no shift
  wraps) the counter becomes \<open>index + 1\<close>; the table is left alone while the index is
  below its size, and grows to the value of \<open>nextPower2\<close>, beyond the index, with every
  registered array enlarged, when the index has reached the size.
\<close>

theorem explicit_index_frame:
  assumes "0 < m_nodeArrayTableSize g" "0 \<le> m_nodeIdCount g"
    and "0 < m_edgeArrayTableSize g" "0 \<le> m_edgeIdCount g"
  shows "((index < m_nodeIdCount g \<longrightarrow>
          (\<exists>g' v. newNode_index index g = Some (g', v)
            \<and> m_nodeIdCount g' = m_nodeIdCount g \<and> m_nodeArrayTableSize g' = m_nodeArrayTableSize g
            \<and> arrMem g' = arrMem g
            \<and> filter isEnlargeCall (calls g') = filter isEnlargeCall (calls g)))
    \<and> (m_nodeIdCount g \<le> index \<and> index < 1073741824 \<longrightarrow>
          (\<exists>g' v. newNode_index index g = Some (g', v)
            \<and> m_nodeIdCount g' = index + 1
            \<and> (index < m_nodeArrayTableSize g \<longrightarrow>
                m_nodeArrayTableSize g' = m_nodeArrayTableSize g \<and> arrMem g' = arrMem g
                \<and> filter isEnlargeCall (calls g') = filter isEnlargeCall (calls g))
            \<and> (m_nodeArrayTableSize g \<le> index \<longrightarrow>
                nextPower2 (m_nodeArrayTableSize g) index = Some (m_nodeArrayTableSize g')
                \<and> index < m_nodeArrayTableSize g'
                \<and> (\<forall>a \<in> set (m_regNodeArrays g).
                      a_size (arrMem g' NodeArrayKind a) = m_nodeArrayTableSize g')))))
   \<and> ((index < m_edgeIdCount g \<longrightarrow>
          (\<exists>g' e. newEdge_index v w index g = Some (g', e)
            \<and> m_edgeIdCount g' = m_edgeIdCount g \<and> m_edgeArrayTableSize g' = m_edgeArrayTableSize g
            \<and> arrMem g' = arrMem g
            \<and> filter isEnlargeCall (calls g') = filter isEnlargeCall (calls g)))
    \<and> (m_edgeIdCount g \<le> index \<and> index < 1073741824 \<longrightarrow>
          (\<exists>g' e. newEdge_index v w index g = Some (g', e)
            \<and> m_edgeIdCount g' = index + 1
            \<and> (index < m_edgeArrayTableSize g \<longrightarrow>
                m_edgeArrayTableSize g' = m_edgeArrayTableSize g \<and> arrMem g' = arrMem g
                \<and> filter isEnlargeCall (calls g') = filter isEnlargeCall (calls g))
            \<and> (m_edgeArrayTableSize g \<le> index \<longrightarrow>
                nextPower2 (m_edgeArrayTableSize g) index = Some (m_edgeArrayTableSize g')
                \<and> index < m_edgeArrayTableSize g'
                \<and> (\<forall>a \<in> set (m_regEdgeArrays g).
                      a_size (arrMem g' EdgeArrayKind a) = m_edgeArrayTableSize g')
                \<and> (\<forall>a \<in> set (m_regAdjArrays g).
                      a_size (arrMem g' AdjEntryArrayKind a) = shl1 (m_edgeArrayTableSize g'))))))"
  using newNode_index_props[OF assms(1,2)] newEdge_index_props[OF assms(3,4)] by blast

lemma twoNodes_counts:
  "m_nodeIdCount twoNodes = 2" "m_nodeArrayTableSize twoNodes = 16"
  "m_edgeIdCount twoNodes = 0" "m_edgeArrayTableSize twoNodes = 16"
  "nodes twoNodes = [1, 2]"
  by (simp_all add: twoNodes_def newNode_def allocNode_def linkNode_eq Let_def emptyGraph_def
        MIN_NODE_TABLE_SIZE_def MIN_EDGE_TABLE_SIZE_def int32_def)


theorem explicit_index_frame_witness:
  "0 < m_nodeArrayTableSize twoNodes \<and> 0 \<le> m_nodeIdCount twoNodes
   \<and> 0 < m_edgeArrayTableSize twoNodes \<and> 0 \<le> m_edgeIdCount twoNodes
   \<and> m_nodeIdCount twoNodes \<le> 20 \<and> m_edgeIdCount twoNodes \<le> 20
   \<and> m_nodeArrayTableSize twoNodes \<le> 20 \<and> m_edgeArrayTableSize twoNodes \<le> 20
   \<and> (\<exists>g' v. newNode_index 20 twoNodes = Some (g', v) \<and> m_nodeIdCount g' = 21
          \<and> 20 < m_nodeArrayTableSize g')
   \<and> (\<exists>g' e. newEdge_index 1 2 20 twoNodes = Some (g', e) \<and> m_edgeIdCount g' = 21
          \<and> 20 < m_edgeArrayTableSize g')
   \<and> 1 < m_nodeIdCount twoNodes
   \<and> (\<exists>g' v. newNode_index 1 twoNodes = Some (g', v) \<and> m_nodeIdCount g' = 2
          \<and> m_nodeArrayTableSize g' = 16)"
  using explicit_index_frame[of twoNodes 20 1 2] explicit_index_frame[of twoNodes 1 1 2]
  by (simp add: twoNodes_counts) blast

section \<open>The table invariant\<close>

lemma tables_frame [simp]:
  "tables (updNode v f g) = tables g"
  "tables (updEdge e fe g) = tables g"
  "tables (updAdj a fa g) = tables g"
  "tables (notify c g) = tables g"
  "tables (g\<lparr> nodes := ns \<rparr>) = tables g"
  "tables (g\<lparr> edges := es \<rparr>) = tables g"
  "tables (g\<lparr> m_hiddenEdges := hs \<rparr>) = tables g"
  "tables (g\<lparr> calls := cs \<rparr>) = tables g"
  "tables (g\<lparr> nodeMem := nm \<rparr>) = tables g"
  "tables (g\<lparr> edgeMem := em \<rparr>) = tables g"
  "tables (g\<lparr> adjMem := am \<rparr>) = tables g"
  "tables (g\<lparr> nextNode := k \<rparr>) = tables g"
  "tables (g\<lparr> nextEdge := k \<rparr>) = tables g"
  "tables (g\<lparr> nextAdj := k \<rparr>) = tables g"
  "tables (g\<lparr> m_regStructures := os \<rparr>) = tables g"
  "tables (g\<lparr> obsAttached := oa \<rparr>) = tables g"
  by (simp_all add: tables_def updNode_def updEdge_def updAdj_def notify_def)

lemma tables_fold_notify [simp]: "tables (fold (\<lambda>x. notify (f x)) xs g) = tables g"
  by (simp add: fold_notify)

lemma tables_delEdge [simp]: "tables (delEdge e g) = tables g"
  by (simp add: delEdge_def Let_def)

lemma tables_hideEdge [simp]: "tables (hideEdge e g) = tables g"
  by (simp add: hideEdge_def Let_def)

lemma tables_restoreEdge [simp]: "tables (restoreEdge e g) = tables g"
  by (simp add: restoreEdge_def Let_def)

lemma tables_fold_restoreEdge: "tables (fold restoreEdge es g) = tables g"
  by (induction es arbitrary: g) simp_all

lemma tables_restoreAllEdges [simp]: "tables (restoreAllEdges g) = tables g"
  by (simp add: restoreAllEdges_def tables_fold_restoreEdge)

lemma tables_reverseEdge [simp]: "tables (reverseEdge e g) = tables g"
  by (simp add: reverseEdge_def Let_def)

lemma tables_moveAdjList [simp]: "tables (moveAdjList adj old v pos dir g) = tables g"
  by (simp add: moveAdjList_def Let_def)

lemma tables_moveSource [simp]: "tables (moveSource e adj dir g) = tables g"
  by (simp add: moveSource_def Let_def)

lemma tables_moveTarget [simp]: "tables (moveTarget e adj dir g) = tables g"
  by (simp add: moveTarget_def Let_def)

lemma tables_resetAdjEntryIndex [simp]: "tables (resetAdjEntryIndex n o' g) = tables g"
  by (simp add: resetAdjEntryIndex_def)

lemma tables_unsplit_merge [simp]: "tables (unsplit_merge eIn eOut g) = tables g"
  by (simp add: unsplit_merge_def Let_def)

lemma tables_unsplit: "unsplit eIn eOut g = Inr g' \<Longrightarrow> tables g' = tables g"
  by (auto simp: unsplit_def Let_def split: if_splits)

lemma tables_delNode_loop:
  assumes "delNode_loop v g = Some g'"
  shows "tables g' = tables g"
proof (rule delNode_loop.raw_induct[where P = "\<lambda>v g g'. tables g' = tables g", OF _ assms])
  fix f v g y
  assume IH: "\<And>v g y. f v g = Some y \<Longrightarrow> tables y = tables g"
    and step: "(case adjEdges (nodeMem g v) of [] \<Rightarrow> Some g
                | adj # x \<Rightarrow> f v (delEdge (m_edge (adjMem g adj)) g)) = Some y"
  from step show "tables y = tables g"
    by (cases "adjEdges (nodeMem g v)") (auto dest!: IH)
qed

lemma tables_delNode: "delNode v g = Some g' \<Longrightarrow> tables g' = tables g"
  by (auto simp: delNode_def Let_def split: option.splits dest!: tables_delNode_loop)

lemma tables_contract_loop:
  assumes "contract_loop adjSrc adjTgt v w adj g = Some g'"
  shows "tables g' = tables g"
proof (rule contract_loop.raw_induct[where P = "\<lambda>adjSrc adjTgt v w adj g g'. tables g' = tables g",
        OF _ assms])
  fix f adjSrc adjTgt v w adj g y
  assume IH: "\<And>adjSrc adjTgt v w adj g y. f adjSrc adjTgt v w adj g = Some y \<Longrightarrow> tables y = tables g"
    and step: "(if adj = adjTgt then Some g
      else if adj = nullptr then None
      else
        (let adjNext = cyclicSucc g adj in
         if twinNode g adj = v then f adjSrc adjTgt v w adjNext g
         else
           (let eAdj = theEdge g adj in
            if w = source g eAdj
            then f adjSrc adjTgt v w adjNext (moveSource eAdj adjSrc before g)
            else f adjSrc adjTgt v w adjNext (moveTarget eAdj adjSrc before g)))) = Some y"
  from step show "tables y = tables g"
    by (auto simp: Let_def split: if_splits dest!: IH)
qed

lemma tables_contract: "contract e g = Some (g', x) \<Longrightarrow> tables g' = tables g"
  by (auto simp: contract_def Let_def split: option.splits
      dest!: tables_contract_loop tables_delNode)

lemma tableInv_tables:
  "tableInv g \<longleftrightarrow> (case tables g of ((nc, ec, nt, et), (rn, re, ra), am) \<Rightarrow>
     tableSizeFits MIN_NODE_TABLE_SIZE nc nt \<and> tableSizeFits MIN_EDGE_TABLE_SIZE ec et
     \<and> (\<forall>a \<in> set rn. nt \<le> a_size (am NodeArrayKind a))
     \<and> (\<forall>a \<in> set re. et \<le> a_size (am EdgeArrayKind a))
     \<and> (\<forall>a \<in> set ra. 2 * et \<le> a_size (am AdjEntryArrayKind a)))"
  by (simp add: tableInv_def tables_def)

lemma tableInv_frame: "tables g' = tables g \<Longrightarrow> tableInv g' = tableInv g"
  by (simp add: tableInv_tables)

lemma fits_pos: "tableSizeFits m c t \<Longrightarrow> 0 < t"
  by (auto simp: tableSizeFits_def)

lemma fits_incr: "tableSizeFits m c t \<Longrightarrow> c \<noteq> t \<Longrightarrow> tableSizeFits m (c + 1) t"
  by (auto simp: tableSizeFits_def)

lemma fits_double:
  assumes "tableSizeFits m t t"
  shows "tableSizeFits m (t + 1) (2 * t)"
proof -
  from assms obtain k where k: "t = 2 ^ k" by (auto simp: tableSizeFits_def)
  have "2 * t = 2 ^ Suc k" using k by simp
  then have "\<exists>j. 2 * t = 2 ^ j" by blast
  moreover have "0 < t" using assms by (rule fits_pos)
  ultimately show ?thesis using assms by (simp add: tableSizeFits_def)
qed

lemma fits_explicit: "tableSizeFits m c t \<Longrightarrow> c \<le> i \<Longrightarrow> i < t \<Longrightarrow> tableSizeFits m (i + 1) t"
  by (auto simp: tableSizeFits_def)

lemma fits_nextPower2:
  assumes "tableSizeFits m c t" "c \<le> i" "t \<le> i" "i < 1073741824" "nextPower2 t i = Some r"
  shows "tableSizeFits m (i + 1) r"
proof -
  from assms(1) have t: "0 < t" by (rule fits_pos)
  from nextPower2_returns[OF t assms(4)] assms(5) obtain j where
    r: "i < r" "r = t * 2 ^ j" "j = 0 \<or> r \<le> 2 * i" by auto
  from r(1,2) assms(3) have "j \<noteq> 0" by (cases j) auto
  with r(3) have le: "r \<le> 2 * i" by simp
  from assms(1) obtain k where k: "t = 2 ^ k" by (auto simp: tableSizeFits_def)
  have "r = 2 ^ (k + j)" using r(2) k by (simp add: power_add)
  moreover have "m \<le> r" using assms(1,3) r(1) by (auto simp: tableSizeFits_def)
  moreover have "0 \<le> i + 1" using assms(1,2) by (auto simp: tableSizeFits_def)
  moreover have "r div 2 < i + 1" using le by simp
  ultimately show ?thesis using r(1) by (auto simp: tableSizeFits_def)
qed

lemma newNode_tables:
  "tables (fst (newNode g)) =
     (if m_nodeIdCount g = m_nodeArrayTableSize g
      then ((int32 (m_nodeIdCount g + 1), m_edgeIdCount g, shl1 (m_nodeArrayTableSize g),
             m_edgeArrayTableSize g),
            (m_regNodeArrays g, m_regEdgeArrays g, m_regAdjArrays g),
            (arrMem g)(NodeArrayKind := setSizes (shl1 (m_nodeArrayTableSize g)) (m_regNodeArrays g)
                                          (arrMem g NodeArrayKind)))
      else ((int32 (m_nodeIdCount g + 1), m_edgeIdCount g, m_nodeArrayTableSize g,
             m_edgeArrayTableSize g),
            (m_regNodeArrays g, m_regEdgeArrays g, m_regAdjArrays g), arrMem g))"
  by (simp add: tables_def newNode_def growNodeTable_eq linkNode_eq allocNode_def Let_def)

lemma createEdgeElement_tables:
  "tables (fst (createEdgeElement v w a1 a2 g)) =
     (if m_edgeIdCount g = m_edgeArrayTableSize g
      then ((m_nodeIdCount g, int32 (m_edgeIdCount g + 1), m_nodeArrayTableSize g,
             shl1 (m_edgeArrayTableSize g)),
            (m_regNodeArrays g, m_regEdgeArrays g, m_regAdjArrays g),
            (arrMem g)(EdgeArrayKind := setSizes (shl1 (m_edgeArrayTableSize g)) (m_regEdgeArrays g)
                                          (arrMem g EdgeArrayKind),
                       AdjEntryArrayKind := setSizes (shl1 (shl1 (m_edgeArrayTableSize g)))
                                          (m_regAdjArrays g) (arrMem g AdjEntryArrayKind)))
      else ((m_nodeIdCount g, int32 (m_edgeIdCount g + 1), m_nodeArrayTableSize g,
             m_edgeArrayTableSize g),
            (m_regNodeArrays g, m_regEdgeArrays g, m_regAdjArrays g), arrMem g))"
  by (simp add: tables_def createEdgeElement_def growEdgeTable_eq linkEdge_eq allocEdge_def
        updAdj_def Let_def)

lemma tables_newAdjPair [simp]: "tables (fst (newAdjPair v w g)) = tables g"
  by (simp add: newAdjPair_eq Let_def)

lemma tableInv_nodeStep:
  assumes "tableInv g" "m_nodeIdCount g < 536870912"
    and "tables g' = tables (fst (newNode g))"
  shows "tableInv g'"
proof -
  have f: "tableSizeFits MIN_NODE_TABLE_SIZE (m_nodeIdCount g) (m_nodeArrayTableSize g)"
    using assms(1) by (simp add: tableInv_def)
  then have c0: "0 \<le> m_nodeIdCount g" by (simp add: tableSizeFits_def)
  then have i: "int32 (m_nodeIdCount g + 1) = m_nodeIdCount g + 1"
    using assms(2) by (simp add: int32_id)
  show ?thesis
  proof (cases "m_nodeIdCount g = m_nodeArrayTableSize g")
    case True
    then have s: "shl1 (m_nodeArrayTableSize g) = 2 * m_nodeArrayTableSize g"
      using c0 assms(2) by (simp add: shl1_id)
    have "tableSizeFits MIN_NODE_TABLE_SIZE (m_nodeArrayTableSize g + 1) (2 * m_nodeArrayTableSize g)"
      using f True by (simp add: fits_double)
    then show ?thesis
      using assms(1) True i s
      by (simp add: tableInv_tables assms(3) newNode_tables) (simp add: tables_def tableInv_def setSizes_def)
  next
    case False
    then show ?thesis
      using assms(1) i fits_incr[OF f False]
      by (simp add: tableInv_tables assms(3) newNode_tables) (simp add: tables_def tableInv_def)
  qed
qed

lemma tableInv_edgeStep:
  assumes "tableInv g" "m_edgeIdCount g < 536870912"
    and "tables g' = tables (fst (createEdgeElement v w a1 a2 g))"
  shows "tableInv g'"
proof -
  have f: "tableSizeFits MIN_EDGE_TABLE_SIZE (m_edgeIdCount g) (m_edgeArrayTableSize g)"
    using assms(1) by (simp add: tableInv_def)
  then have c0: "0 \<le> m_edgeIdCount g" by (simp add: tableSizeFits_def)
  then have i: "int32 (m_edgeIdCount g + 1) = m_edgeIdCount g + 1"
    using assms(2) by (simp add: int32_id)
  show ?thesis
  proof (cases "m_edgeIdCount g = m_edgeArrayTableSize g")
    case True
    then have s: "shl1 (m_edgeArrayTableSize g) = 2 * m_edgeArrayTableSize g"
        "shl1 (2 * m_edgeArrayTableSize g) = 4 * m_edgeArrayTableSize g"
      using c0 assms(2) by (simp_all add: shl1_id)
    have "tableSizeFits MIN_EDGE_TABLE_SIZE (m_edgeArrayTableSize g + 1) (2 * m_edgeArrayTableSize g)"
      using f True by (simp add: fits_double)
    then show ?thesis
      using assms(1) True i s
      by (simp add: tableInv_tables assms(3) createEdgeElement_tables)
         (simp add: tables_def tableInv_def setSizes_def)
  next
    case False
    then show ?thesis
      using assms(1) i fits_incr[OF f False]
      by (simp add: tableInv_tables assms(3) createEdgeElement_tables) (simp add: tables_def tableInv_def)
  qed
qed

lemma newNode_tables_cong:
  "tables g1 = tables g2 \<Longrightarrow> tables (fst (newNode g1)) = tables (fst (newNode g2))"
  by (simp add: newNode_tables) (simp add: tables_def)

lemma createEdgeElement_tables_cong:
  "tables g1 = tables g2 \<Longrightarrow>
   tables (fst (createEdgeElement v w a1 a2 g1)) = tables (fst (createEdgeElement v' w' a1' a2' g2))"
  by (simp add: createEdgeElement_tables) (simp add: tables_def)

lemma newEdge_tables:
  "tables (fst (newEdge v w g)) = tables (fst (createEdgeElement v w a1 a2 g))"
  apply (simp add: newEdge_def Let_def case_prod_beta setEdgeOfPair_def)
  apply (rule createEdgeElement_tables_cong)
  apply simp
  done

lemma tables_split_newEntries [simp]: "tables (fst (split_newEntries e u g)) = tables g"
  by (simp add: split_newEntries_def Let_def case_prod_beta allocAdj_def)

lemma tables_split_relink [simp]: "tables (split_relink e e2 u a1 a2 oldId g) = tables g"
  by (simp add: split_relink_def Let_def)

lemma split_tables:
  "tables (fst (split e g)) = tables (fst (createEdgeElement v w a1 a2 (fst (newNode g))))"
  apply (simp add: split_def Let_def case_prod_beta)
  apply (rule createEdgeElement_tables_cong)
  apply simp
  done

lemma tables_alloc [simp]:
  "tables (fst (allocNode i g)) = tables g"
  "tables (fst (allocAdj v g)) = tables g"
  "tables (fst (allocEdge v w a1 a2 i g)) = tables g"
  "tables (linkNode v g) = tables g"
  "tables (linkEdge e g) = tables g"
  "tables (setEdgeOfPair a1 a2 e g) = tables g"
  by (simp_all add: allocNode_def allocAdj_def allocEdge_def linkNode_eq linkEdge_eq
      setEdgeOfPair_def Let_def)

lemma newNode_edgeIdCount [simp]: "m_edgeIdCount (fst (newNode g)) = m_edgeIdCount g"
  using newNode_tables[of g] by (simp add: tables_def split: if_splits)

lemma fits_bound:
  assumes "tableSizeFits 16 c t" "c < 536870912"
  shows "t < 1073741824"
  using assms by (auto simp: tableSizeFits_def)

lemma newNode_index_tables:
  assumes "newNode_index i g = Some (g', v)"
  shows "tables g' =
     (if i < m_nodeIdCount g then tables g
      else if i < m_nodeArrayTableSize g then tables (g\<lparr> m_nodeIdCount := int32 (i + 1) \<rparr>)
      else tables (growNodeTable (the (nextPower2 (m_nodeArrayTableSize g) i))
                     (g\<lparr> m_nodeIdCount := int32 (i + 1) \<rparr>)))"
  using assms
  by (auto simp: newNode_index_def Let_def case_prod_beta split: if_splits option.splits)

lemma newEdge_index_tables:
  assumes "newEdge_index v w i g = Some (g', e)"
  shows "tables g' =
     (if i < m_edgeIdCount g then tables g
      else if i < m_edgeArrayTableSize g then tables (g\<lparr> m_edgeIdCount := int32 (i + 1) \<rparr>)
      else tables (growEdgeTable (the (nextPower2 (m_edgeArrayTableSize g) i))
                     (g\<lparr> m_edgeIdCount := int32 (i + 1) \<rparr>)))"
proof -
  have f: "m_edgeIdCount (fst (newAdjPair v w g)) = m_edgeIdCount g"
     "m_edgeArrayTableSize (fst (newAdjPair v w g)) = m_edgeArrayTableSize g"
    by (simp_all add: newAdjPair_eq Let_def)
  have t: "tables (fst (newAdjPair v w g)\<lparr> m_edgeIdCount := c \<rparr>) = tables (g\<lparr> m_edgeIdCount := c \<rparr>)"
     "tables (growEdgeTable r (fst (newAdjPair v w g)\<lparr> m_edgeIdCount := c \<rparr>))
        = tables (growEdgeTable r (g\<lparr> m_edgeIdCount := c \<rparr>))" for c r
    by (simp_all add: newAdjPair_eq Let_def growEdgeTable_eq tables_def)
  show ?thesis
    using assms
    by (auto simp: newEdge_index_def Let_def case_prod_beta f t split: if_splits option.splits)
qed

lemma tableInv_frameD: "tables g' = tables g \<Longrightarrow> tableInv g \<Longrightarrow> tableInv g'"
  by (simp add: tableInv_tables)

lemma tableInv_newNode_index:
  assumes "tableInv g" "i < 536870912" "newNode_index i g = Some (g', v)"
  shows "tableInv g'"
proof -
  have f: "tableSizeFits MIN_NODE_TABLE_SIZE (m_nodeIdCount g) (m_nodeArrayTableSize g)"
    using assms(1) by (simp add: tableInv_def)
  then have c0: "0 \<le> m_nodeIdCount g" by (simp add: tableSizeFits_def)
  note t = newNode_index_tables[OF assms(3)]
  show ?thesis
  proof (cases "i < m_nodeIdCount g")
    case True
    then show ?thesis using assms(1) t by (auto intro: tableInv_frameD)
  next
    case False
    then have i: "int32 (i + 1) = i + 1" using c0 assms(2) by (simp add: int32_id)
    show ?thesis
    proof (cases "i < m_nodeArrayTableSize g")
      case True
      have "tableSizeFits MIN_NODE_TABLE_SIZE (i + 1) (m_nodeArrayTableSize g)"
        using f False True by (intro fits_explicit) auto
      then show ?thesis using assms(1) t False True i
        by (simp add: tableInv_tables) (simp add: tableInv_def tables_def)
    next
      case ge: False
      from fits_pos[OF f] assms(2) nextPower2_returns[of "m_nodeArrayTableSize g" i]
      obtain r where r: "nextPower2 (m_nodeArrayTableSize g) i = Some r" by auto
      have "tableSizeFits MIN_NODE_TABLE_SIZE (i + 1) r"
        using f False ge assms(2) r by (intro fits_nextPower2[where c = "m_nodeIdCount g"]) auto
      then show ?thesis using assms(1) t False ge i r
        by (simp add: tableInv_tables growNodeTable_eq)
           (simp add: tableInv_def tables_def setSizes_def)
    qed
  qed
qed

lemma tableInv_newEdge_index:
  assumes "tableInv g" "i < 536870912" "newEdge_index v w i g = Some (g', e)"
  shows "tableInv g'"
proof -
  have f: "tableSizeFits MIN_EDGE_TABLE_SIZE (m_edgeIdCount g) (m_edgeArrayTableSize g)"
    using assms(1) by (simp add: tableInv_def)
  then have c0: "0 \<le> m_edgeIdCount g" by (simp add: tableSizeFits_def)
  note t = newEdge_index_tables[OF assms(3)]
  show ?thesis
  proof (cases "i < m_edgeIdCount g")
    case True
    then show ?thesis using assms(1) t by (auto intro: tableInv_frameD)
  next
    case False
    then have i: "int32 (i + 1) = i + 1" using c0 assms(2) by (simp add: int32_id)
    show ?thesis
    proof (cases "i < m_edgeArrayTableSize g")
      case True
      have "tableSizeFits MIN_EDGE_TABLE_SIZE (i + 1) (m_edgeArrayTableSize g)"
        using f False True by (intro fits_explicit) auto
      then show ?thesis using assms(1) t False True i
        by (simp add: tableInv_tables) (simp add: tableInv_def tables_def)
    next
      case ge: False
      from fits_pos[OF f] assms(2) nextPower2_returns[of "m_edgeArrayTableSize g" i]
      obtain r j where r: "nextPower2 (m_edgeArrayTableSize g) i = Some r" "j = 0 \<or> r \<le> 2 * i"
          "r = m_edgeArrayTableSize g * 2 ^ j" "i < r"
        by auto
      from r(3,4) ge have "j \<noteq> 0" by (cases j) auto
      with r(2,4) assms(2) c0 False have s: "shl1 r = 2 * r" by (simp add: shl1_id)
      have "tableSizeFits MIN_EDGE_TABLE_SIZE (i + 1) r"
        using f False ge assms(2) r(1) by (intro fits_nextPower2[where c = "m_edgeIdCount g"]) auto
      then show ?thesis using assms(1) t False ge i r(1) s
        by (simp add: tableInv_tables growEdgeTable_eq)
           (simp add: tableInv_def tables_def setSizes_def)
    qed
  qed
qed

lemma tableInv_register:
  assumes "tableInv g" "m_edgeIdCount g < 536870912"
  shows "tableInv (registerNodeArray a g)" "tableInv (registerEdgeArray a g)"
    "tableInv (registerAdjArray a g)" "tableInv (registerStructure obs g)"
proof -
  have "tableSizeFits 16 (m_edgeIdCount g) (m_edgeArrayTableSize g)"
    using assms(1) by (simp add: tableInv_def MIN_EDGE_TABLE_SIZE_def)
  from fits_bound[OF this assms(2)] fits_pos[OF this]
  have s: "shl1 (m_edgeArrayTableSize g) = 2 * m_edgeArrayTableSize g" by (simp add: shl1_id)
  show "tableInv (registerNodeArray a g)" "tableInv (registerEdgeArray a g)"
    "tableInv (registerAdjArray a g)" "tableInv (registerStructure obs g)"
    using assms(1) s
    by (auto simp: tableInv_def registerNodeArray_def registerEdgeArray_def registerAdjArray_def
        registerStructure_def updArray_def)
qed

lemma tableInv_emptyGraph: "tableInv emptyGraph"
proof -
  have "(16::int) = 2 ^ 4" by simp
  then have "\<exists>k. (16::int) = 2 ^ k" by blast
  then show ?thesis
    by (simp add: tableInv_def tableSizeFits_def emptyGraph_def MIN_NODE_TABLE_SIZE_def
        MIN_EDGE_TABLE_SIZE_def)
qed

lemma tableInv_runOp:
  assumes "tableInv g" "m_nodeIdCount g < 536870912" "m_edgeIdCount g < 536870912"
    and "indexInRange op" "runOp op g = Some g'"
  shows "tableInv g'"
proof (cases op)
  case NewNode
  then show ?thesis using assms by (auto intro: tableInv_nodeStep)
next
  case (NewNodeIndex i)
  then show ?thesis using assms by (auto intro: tableInv_newNode_index)
next
  case (NewEdge v w)
  then show ?thesis using assms
    by (auto intro!: tableInv_edgeStep[where g = g and g' = "fst (newEdge v w g)"] newEdge_tables)
next
  case (NewEdgeIndex v w i)
  then show ?thesis using assms by (auto intro: tableInv_newEdge_index)
next
  case (DelNode v)
  then show ?thesis using assms by (auto dest!: tables_delNode intro: tableInv_frameD)
next
  case (DelEdge e)
  then show ?thesis using assms by (auto intro: tableInv_frameD)
next
  case (Split e)
  have 1: "tableInv (fst (newNode g))" using assms by (auto intro: tableInv_nodeStep)
  have "tableInv (fst (split e g))"
    by (rule tableInv_edgeStep[OF 1 _ split_tables]) (use assms in simp)
  then show ?thesis using assms Split by auto
next
  case (Unsplit eIn eOut)
  then show ?thesis using assms
    by (auto dest!: tables_unsplit intro: tableInv_frameD split: sum.splits)
next
  case (ReverseEdge e)
  then show ?thesis using assms by (auto intro: tableInv_frameD)
next
  case (HideEdge e)
  then show ?thesis using assms by (auto intro: tableInv_frameD)
next
  case (RestoreEdge e)
  then show ?thesis using assms by (auto intro: tableInv_frameD)
next
  case RestoreAllEdges
  then show ?thesis using assms by (auto intro: tableInv_frameD)
next
  case (MoveSource e a d)
  then show ?thesis using assms by (auto intro: tableInv_frameD)
next
  case (MoveTarget e a d)
  then show ?thesis using assms by (auto intro: tableInv_frameD)
next
  case (Contract e)
  then show ?thesis using assms by (auto dest!: tables_contract intro: tableInv_frameD)
next
  case (RegisterNodeArray a)
  then show ?thesis using assms by (auto intro: tableInv_register)
next
  case (RegisterEdgeArray a)
  then show ?thesis using assms by (auto intro: tableInv_register)
next
  case (RegisterAdjArray a)
  then show ?thesis using assms by (auto intro: tableInv_register)
next
  case (RegisterStructure obs)
  then show ?thesis using assms by (auto intro: tableInv_register)
qed

lemma freshWithArrays_fields:
  "m_nodeIdCount (fold registerNodeArray as g) = m_nodeIdCount g"
  "m_nodeArrayTableSize (fold registerNodeArray as g) = m_nodeArrayTableSize g"
  "m_regNodeArrays (fold registerNodeArray as g) = m_regNodeArrays g @ as"
  "m_regStructures (fold registerNodeArray as g) = m_regStructures g"
  "calls (fold registerNodeArray as g) = calls g"
  "nodes (fold registerNodeArray as g) = nodes g"
  by (induction as arbitrary: g) (simp_all add: registerNodeArray_def updArray_def)

lemma registerNodeArray_size:
  "a_size (arrMem (registerNodeArray x h) NodeArrayKind a) =
     (if a = x then m_nodeArrayTableSize h else a_size (arrMem h NodeArrayKind a))"
  by (simp add: registerNodeArray_def updArray_def)

lemma freshWithArrays_sizes:
  "a \<in> set as \<Longrightarrow>
   a_size (arrMem (fold registerNodeArray as g) NodeArrayKind a) = m_nodeArrayTableSize g"
proof (induction as arbitrary: g rule: rev_induct)
  case Nil
  then show ?case by simp
next
  case (snoc x xs)
  then show ?case
    by (cases "a = x") (auto simp: registerNodeArray_size freshWithArrays_fields)
qed

lemma newNode_fields:
  "m_regNodeArrays (fst (newNode g)) = m_regNodeArrays g"
  "m_regStructures (fst (newNode g)) = m_regStructures g"
  "nodes (fst (newNode g)) = nodes g @ [nextNode g]"
  "m_nodeIdCount (fst (newNode g)) = int32 (m_nodeIdCount g + 1)"
  "m_nodeArrayTableSize (fst (newNode g)) =
     (if m_nodeIdCount g = m_nodeArrayTableSize g then shl1 (m_nodeArrayTableSize g)
      else m_nodeArrayTableSize g)"
  "arrMem (fst (newNode g)) =
     (if m_nodeIdCount g = m_nodeArrayTableSize g
      then (arrMem g)(NodeArrayKind := setSizes (shl1 (m_nodeArrayTableSize g)) (m_regNodeArrays g)
                                          (arrMem g NodeArrayKind))
      else arrMem g)"
  "m_regStructures g = [] \<Longrightarrow> calls (fst (newNode g)) =
     (if m_nodeIdCount g = m_nodeArrayTableSize g
      then calls g @ map (\<lambda>a. (enlargeTableCall NodeArrayKind a (shl1 (m_nodeArrayTableSize g)),
                                 snapshot g)) (m_regNodeArrays g)
      else calls g)"
  by (simp_all add: newNode_def growNodeTable_eq linkNode_eq allocNode_def Let_def)

lemma newNodes_Suc: "newNodes (Suc k) g = fst (newNode (newNodes k g))"
  by (simp add: newNodes_def)

lemma newNodes_below:
  "k \<le> 16 \<Longrightarrow>
   m_nodeIdCount (newNodes k (freshWithArrays as)) = int k
   \<and> m_nodeArrayTableSize (newNodes k (freshWithArrays as)) = 16
   \<and> m_regNodeArrays (newNodes k (freshWithArrays as)) = as
   \<and> m_regStructures (newNodes k (freshWithArrays as)) = []
   \<and> calls (newNodes k (freshWithArrays as)) = []
   \<and> length (nodes (newNodes k (freshWithArrays as))) = k
   \<and> (\<forall>a \<in> set as. a_size (arrMem (newNodes k (freshWithArrays as)) NodeArrayKind a) = 16)"
proof (induction k)
  case 0
  then show ?case
    by (simp add: newNodes_def freshWithArrays_def freshWithArrays_fields freshWithArrays_sizes)
       (simp add: emptyGraph_def MIN_NODE_TABLE_SIZE_def)
next
  case (Suc k)
  then have IH: "m_nodeIdCount (newNodes k (freshWithArrays as)) = int k"
    "m_nodeArrayTableSize (newNodes k (freshWithArrays as)) = 16"
    "m_regNodeArrays (newNodes k (freshWithArrays as)) = as"
    "m_regStructures (newNodes k (freshWithArrays as)) = []"
    "calls (newNodes k (freshWithArrays as)) = []"
    "length (nodes (newNodes k (freshWithArrays as))) = k"
    "\<forall>a \<in> set as. a_size (arrMem (newNodes k (freshWithArrays as)) NodeArrayKind a) = 16"
    and k: "k < 16" by simp_all
  from k have "int32 (int k + 1) = int k + 1" by (simp add: int32_id)
  with k IH show ?case
    by (simp add: newNodes_Suc newNode_fields)
qed

lemma seventeen_nodes:
  "(\<forall>k \<le> 16. m_nodeArrayTableSize (newNodes k (freshWithArrays as)) = 16)
   \<and> m_nodeArrayTableSize (newNodes 17 (freshWithArrays as)) = 32
   \<and> (\<forall>a \<in> set as. a_size (arrMem (newNodes 17 (freshWithArrays as)) NodeArrayKind a) = 32)
   \<and> calls (newNodes 17 (freshWithArrays as)) =
        map (\<lambda>a. (enlargeTableCall NodeArrayKind a 32, snapshot (newNodes 16 (freshWithArrays as)))) as
   \<and> length (nodes (newNodes 16 (freshWithArrays as))) = 16
   \<and> length (nodes (newNodes 17 (freshWithArrays as))) = 17"
proof -
  have s: "newNodes 17 (freshWithArrays as) = fst (newNode (newNodes 16 (freshWithArrays as)))"
    using newNodes_Suc[of 16] by simp
  have "shl1 16 = 32" by (simp add: shl1_def int32_def)
  with newNodes_below[of 16 as] newNodes_below[of _ as] show ?thesis
    by (simp add: s newNode_fields setSizes_def)
qed

lemma sixteen_nodes:
  "m_nodeIdCount (newNodes 16 emptyGraph) = 16 \<and> m_nodeArrayTableSize (newNodes 16 emptyGraph) = 16"
  using newNodes_below[of 16 "[]"] by (simp add: freshWithArrays_def)

section \<open>What the operations do to the structure\<close>

lemma newNode_sel [simp]:
  "snd (newNode g) = nextNode g"
  "nodes (fst (newNode g)) = nodes g @ [nextNode g]"
  "edges (fst (newNode g)) = edges g"
  "m_hiddenEdges (fst (newNode g)) = m_hiddenEdges g"
  "nodeMem (fst (newNode g)) = (nodeMem g)(nextNode g :=
      \<lparr> n_index = m_nodeIdCount g, m_indeg = 0, m_outdeg = 0, adjEdges = [] \<rparr>)"
  "edgeMem (fst (newNode g)) = edgeMem g"
  "adjMem (fst (newNode g)) = adjMem g"
  "nextNode (fst (newNode g)) = Suc (nextNode g)"
  "nextEdge (fst (newNode g)) = nextEdge g"
  "nextAdj (fst (newNode g)) = nextAdj g"
  "m_regAdjArrays (fst (newNode g)) = m_regAdjArrays g"
  "m_regStructures (fst (newNode g)) = m_regStructures g"
  by (simp_all add: newNode_def growNodeTable_eq linkNode_eq allocNode_def Let_def)

lemma createEdgeElement_sel [simp]:
  "snd (createEdgeElement v w a1 a2 g) = nextEdge g"
  "nodes (fst (createEdgeElement v w a1 a2 g)) = nodes g"
  "edges (fst (createEdgeElement v w a1 a2 g)) = edges g @ [nextEdge g]"
  "m_hiddenEdges (fst (createEdgeElement v w a1 a2 g)) = m_hiddenEdges g"
  "nodeMem (fst (createEdgeElement v w a1 a2 g)) = nodeMem g"
  "edgeMem (fst (createEdgeElement v w a1 a2 g)) = (edgeMem g)(nextEdge g :=
      \<lparr> e_index = m_edgeIdCount g, m_src = v, m_tgt = w, m_adjSrc = a1, m_adjTgt = a2 \<rparr>)"
  "adjMem (fst (createEdgeElement v w a1 a2 g)) =
     (let m1 = (adjMem g)(a1 := (adjMem g a1)\<lparr> m_id := shl1 (m_edgeIdCount g) \<rparr>)
      in m1(a2 := (m1 a2)\<lparr> m_id := shl1 (m_edgeIdCount g) OR 1 \<rparr>))"
  "nextNode (fst (createEdgeElement v w a1 a2 g)) = nextNode g"
  "nextEdge (fst (createEdgeElement v w a1 a2 g)) = Suc (nextEdge g)"
  "nextAdj (fst (createEdgeElement v w a1 a2 g)) = nextAdj g"
  "m_regAdjArrays (fst (createEdgeElement v w a1 a2 g)) = m_regAdjArrays g"
  "m_regStructures (fst (createEdgeElement v w a1 a2 g)) = m_regStructures g"
  by (simp_all add: createEdgeElement_def growEdgeTable_eq linkEdge_eq allocEdge_def updAdj_def Let_def)

lemma split_newEntries_sel [simp]:
  "snd (split_newEntries e u g) = (nextAdj g, Suc (nextAdj g))"
  "nodes (fst (split_newEntries e u g)) = nodes g"
  "edges (fst (split_newEntries e u g)) = edges g"
  "m_hiddenEdges (fst (split_newEntries e u g)) = m_hiddenEdges g"
  "nodeMem (fst (split_newEntries e u g)) = (nodeMem g)(u :=
      (nodeMem g u)\<lparr> adjEdges := adjEdges (nodeMem g u) @ [nextAdj g, Suc (nextAdj g)] \<rparr>)"
  "edgeMem (fst (split_newEntries e u g)) = edgeMem g"
  "nextNode (fst (split_newEntries e u g)) = nextNode g"
  "nextEdge (fst (split_newEntries e u g)) = nextEdge g"
  "nextAdj (fst (split_newEntries e u g)) = Suc (Suc (nextAdj g))"
  "m_regAdjArrays (fst (split_newEntries e u g)) = m_regAdjArrays g"
  "m_regStructures (fst (split_newEntries e u g)) = m_regStructures g"
  "m_edgeIdCount (fst (split_newEntries e u g)) = m_edgeIdCount g"
  by (simp_all add: split_newEntries_def allocAdj_def updAdj_def updNode_def pushBack_def Let_def
      case_prod_beta)

lemma split_newEntries_adjMem:
  assumes "m_adjSrc (edgeMem g e) < nextAdj g" "m_adjTgt (edgeMem g e) < nextAdj g"
  shows "adjMem (fst (split_newEntries e u g)) = (adjMem g)
     (nextAdj g := \<lparr> m_twin = m_adjSrc (edgeMem g e), m_edge = e, m_node = u,
                      m_id = m_id (adjMem g (m_adjTgt (edgeMem g e))) \<rparr>,
      m_adjSrc (edgeMem g e) := (adjMem g (m_adjSrc (edgeMem g e)))\<lparr> m_twin := nextAdj g \<rparr>,
      Suc (nextAdj g) := \<lparr> m_twin = m_adjTgt (edgeMem g e), m_edge = nullptr, m_node = u, m_id = 0 \<rparr>)"
  using assms
  by (auto simp add: split_newEntries_def allocAdj_def updAdj_def updNode_def pushBack_def Let_def
      case_prod_beta fun_eq_iff)

lemma split_relink_sel [simp]:
  "nodes (split_relink e e2 u a1 a2 oldId g) = nodes g"
  "edges (split_relink e e2 u a1 a2 oldId g) = edges g"
  "m_hiddenEdges (split_relink e e2 u a1 a2 oldId g) = m_hiddenEdges g"
  "nodeMem (split_relink e e2 u a1 a2 oldId g) = nodeMem g"
  "edgeMem (split_relink e e2 u a1 a2 oldId g) =
     (edgeMem g)(e := (edgeMem g e)\<lparr> m_tgt := u, m_adjTgt := a1 \<rparr>)"
  "adjMem (split_relink e e2 u a1 a2 oldId g) =
     (let m1 = (adjMem g)(m_adjTgt (edgeMem g e2) :=
                  (adjMem g (m_adjTgt (edgeMem g e2)))\<lparr> m_twin := a2 \<rparr>);
          m2 = m1(a2 := (m1 a2)\<lparr> m_edge := e2 \<rparr>)
      in m2(m_adjTgt (edgeMem g e) := (m2 (m_adjTgt (edgeMem g e)))\<lparr> m_edge := e2 \<rparr>))"
  "nextNode (split_relink e e2 u a1 a2 oldId g) = nextNode g"
  "nextEdge (split_relink e e2 u a1 a2 oldId g) = nextEdge g"
  "nextAdj (split_relink e e2 u a1 a2 oldId g) = nextAdj g"
  by (simp_all add: split_relink_def resetAdjEntryIndex_def fold_notify updAdj_def updEdge_def Let_def)

lemma split_sel:
  "snd (split e g) = nextEdge g"
  "nodes (fst (split e g)) = nodes g @ [nextNode g]"
  "edges (fst (split e g)) = edges g @ [nextEdge g]"
  "m_hiddenEdges (fst (split e g)) = m_hiddenEdges g"
  "nodeMem (fst (split e g)) = (nodeMem g)(nextNode g :=
      \<lparr> n_index = m_nodeIdCount g, m_indeg = 1, m_outdeg = 1,
        adjEdges = [nextAdj g, Suc (nextAdj g)] \<rparr>)"
  "nextNode (fst (split e g)) = Suc (nextNode g)"
  "nextEdge (fst (split e g)) = Suc (nextEdge g)"
  "nextAdj (fst (split e g)) = Suc (Suc (nextAdj g))"
  by (simp_all add: split_def Let_def case_prod_beta updNode_def)

lemma split_edgeMem:
  assumes "e < nextEdge g"
  shows "edgeMem (fst (split e g)) = (edgeMem g)
     (nextEdge g := \<lparr> e_index = m_edgeIdCount g, m_src = nextNode g, m_tgt = m_tgt (edgeMem g e),
                       m_adjSrc = Suc (nextAdj g), m_adjTgt = m_adjTgt (edgeMem g e) \<rparr>,
      e := (edgeMem g e)\<lparr> m_tgt := nextNode g, m_adjTgt := nextAdj g \<rparr>)"
  using assms
  by (simp add: split_def Let_def case_prod_beta updNode_def)

lemma split_adjMem:
  assumes "e < nextEdge g" "m_adjSrc (edgeMem g e) < nextAdj g" "m_adjTgt (edgeMem g e) < nextAdj g"
    and "m_adjSrc (edgeMem g e) \<noteq> m_adjTgt (edgeMem g e)"
  shows "adjMem (fst (split e g)) = (adjMem g)
     (nextAdj g := \<lparr> m_twin = m_adjSrc (edgeMem g e), m_edge = e, m_node = nextNode g,
                      m_id = m_id (adjMem g (m_adjTgt (edgeMem g e))) \<rparr>,
      m_adjSrc (edgeMem g e) := (adjMem g (m_adjSrc (edgeMem g e)))\<lparr> m_twin := nextAdj g \<rparr>,
      Suc (nextAdj g) := \<lparr> m_twin = m_adjTgt (edgeMem g e), m_edge = nextEdge g,
                            m_node = nextNode g, m_id = shl1 (m_edgeIdCount g) \<rparr>,
      m_adjTgt (edgeMem g e) := (adjMem g (m_adjTgt (edgeMem g e)))
          \<lparr> m_id := shl1 (m_edgeIdCount g) OR 1, m_twin := Suc (nextAdj g), m_edge := nextEdge g \<rparr>)"
  using assms
  by (auto simp add: split_def Let_def case_prod_beta updNode_def split_newEntries_adjMem fun_eq_iff)

lemma unsplit_merge_sel [simp]:
  "nodes (unsplit_merge eIn eOut g) = del (m_tgt (edgeMem g eIn)) (nodes g)"
  "edges (unsplit_merge eIn eOut g) = del eOut (edges g)"
  "m_hiddenEdges (unsplit_merge eIn eOut g) = m_hiddenEdges g"
  "nodeMem (unsplit_merge eIn eOut g) = nodeMem g"
  "edgeMem (unsplit_merge eIn eOut g) = (edgeMem g)(eIn :=
     (edgeMem g eIn)\<lparr> m_tgt := m_tgt (edgeMem g eOut), m_adjTgt := m_adjTgt (edgeMem g eOut) \<rparr>)"
  "adjMem (unsplit_merge eIn eOut g) =
     (let adjSrc = m_adjSrc (edgeMem g eIn); adjTgt = m_adjTgt (edgeMem g eOut);
          m1 = (adjMem g)(adjTgt := (adjMem g adjTgt)\<lparr> m_id := m_id (adjMem g (m_adjTgt (edgeMem g eIn))) \<rparr>);
          m2 = m1(adjSrc := (m1 adjSrc)\<lparr> m_twin := adjTgt \<rparr>)
      in m2(adjTgt := (m2 adjTgt)\<lparr> m_twin := adjSrc, m_edge := eIn \<rparr>))"
  "nextNode (unsplit_merge eIn eOut g) = nextNode g"
  "nextEdge (unsplit_merge eIn eOut g) = nextEdge g"
  "nextAdj (unsplit_merge eIn eOut g) = nextAdj g"
  by (simp_all add: unsplit_merge_def resetAdjEntryIndex_def fold_notify updAdj_def updEdge_def
      target_def Let_def)

lemma wf_edgeD:
  assumes "wf g" "e \<in> set (edges g)"
  shows "wfEdge g e" "wfEdgeCore g e"
  using assms by (auto simp: wf_def list_all_iff wfEdge_def)

lemma wf_nodeD:
  assumes "wf g" "v \<in> set (nodes g)"
  shows "wfNode g v" "v < nextNode g" "0 < v"
  using assms by (auto simp: wf_def list_all_iff wfNode_def)

lemma wf_fresh:
  assumes "wf g"
  shows "nextNode g \<notin> set (nodes g)" "nextEdge g \<notin> set (edges g)"
    "nextEdge g \<notin> set (m_hiddenEdges g)"
  using assms by (auto simp: wf_def list_all_iff wfNode_def wfEdge_def wfHidden_def wfEdgeCore_def)

lemma del_snoc: "x \<notin> set xs \<Longrightarrow> del x (xs @ [x]) = xs"
  by (simp add: del_def remove1_append)

lemma unsplit_ok_iff:
  "(\<exists>g'. unsplit eIn eOut h = Inr g') \<longleftrightarrow>
     (indeg h (target h eIn) = 1 \<and> outdeg h (target h eIn) = 1
      \<and> source h eOut = target h eIn \<and> \<not> isSelfLoop h eIn \<and> \<not> isSelfLoop h eOut)"
  by (auto simp: unsplit_def Let_def)

lemma split_unsplit:
  assumes "wf g" "e \<in> set (edges g)"
  shows "unsplit e (snd (split e g)) (fst (split e g))
           = Inr (unsplit_merge e (nextEdge g) (fst (split e g)))"
    and "nodes (unsplit_merge e (nextEdge g) (fst (split e g))) = nodes g"
    and "edges (unsplit_merge e (nextEdge g) (fst (split e g))) = edges g"
    and "m_hiddenEdges (unsplit_merge e (nextEdge g) (fst (split e g))) = m_hiddenEdges g"
    and "v < nextNode g \<Longrightarrow> nodeMem (unsplit_merge e (nextEdge g) (fst (split e g))) v = nodeMem g v"
    and "e' < nextEdge g \<Longrightarrow> edgeMem (unsplit_merge e (nextEdge g) (fst (split e g))) e' = edgeMem g e'"
    and "a < nextAdj g \<Longrightarrow> adjMem (unsplit_merge e (nextEdge g) (fst (split e g))) a = adjMem g a"
proof -
  note c = wf_edgeD(2)[OF assms, unfolded wfEdgeCore_def]
  from c have b: "e < nextEdge g" "m_adjSrc (edgeMem g e) < nextAdj g"
    "m_adjTgt (edgeMem g e) < nextAdj g" "m_adjSrc (edgeMem g e) \<noteq> m_adjTgt (edgeMem g e)"
    by simp_all
  from c assms(1) have n: "m_src (edgeMem g e) < nextNode g" "m_tgt (edgeMem g e) < nextNode g"
    by (auto dest: wf_nodeD)
  note f = wf_fresh[OF assms(1)]
  note em = split_edgeMem[OF b(1)]
  note am = split_adjMem[OF b]
  show "unsplit e (snd (split e g)) (fst (split e g))
           = Inr (unsplit_merge e (nextEdge g) (fst (split e g)))"
    using b n by (simp add: unsplit_def split_sel em indeg_def outdeg_def target_def source_def
        isSelfLoop_def)
  show "nodes (unsplit_merge e (nextEdge g) (fst (split e g))) = nodes g"
    using b f by (simp add: split_sel em del_snoc)
  show "edges (unsplit_merge e (nextEdge g) (fst (split e g))) = edges g"
    using f by (simp add: split_sel del_snoc)
  show "m_hiddenEdges (unsplit_merge e (nextEdge g) (fst (split e g))) = m_hiddenEdges g"
    by (simp add: split_sel)
  show "nodeMem (unsplit_merge e (nextEdge g) (fst (split e g))) v = nodeMem g v" if "v < nextNode g"
    using that by (simp add: split_sel)
  show "edgeMem (unsplit_merge e (nextEdge g) (fst (split e g))) e' = edgeMem g e'" if "e' < nextEdge g"
    using that b by (simp add: em)
  show "adjMem (unsplit_merge e (nextEdge g) (fst (split e g))) a = adjMem g a" if "a < nextAdj g"
    using that b c by (simp add: em am Let_def)
qed

lemma newAdjPair_sel [simp]:
  "snd (newAdjPair v w g) = (nextAdj g, Suc (nextAdj g))"
  "nodes (fst (newAdjPair v w g)) = nodes g"
  "edges (fst (newAdjPair v w g)) = edges g"
  "m_hiddenEdges (fst (newAdjPair v w g)) = m_hiddenEdges g"
  "edgeMem (fst (newAdjPair v w g)) = edgeMem g"
  "nextNode (fst (newAdjPair v w g)) = nextNode g"
  "nextEdge (fst (newAdjPair v w g)) = nextEdge g"
  "nextAdj (fst (newAdjPair v w g)) = Suc (Suc (nextAdj g))"
  "m_edgeIdCount (fst (newAdjPair v w g)) = m_edgeIdCount g"
  "nodeMem (fst (newAdjPair v w g)) =
     (let m1 = (nodeMem g)(v := (nodeMem g v)\<lparr> adjEdges := adjEdges (nodeMem g v) @ [nextAdj g],
                                   m_outdeg := m_outdeg (nodeMem g v) + 1 \<rparr>)
      in m1(w := (m1 w)\<lparr> adjEdges := adjEdges (m1 w) @ [Suc (nextAdj g)],
                           m_indeg := m_indeg (m1 w) + 1 \<rparr>))"
  "adjMem (fst (newAdjPair v w g)) = (adjMem g)
      (nextAdj g := \<lparr> m_twin = Suc (nextAdj g), m_edge = nullptr, m_node = v, m_id = 0 \<rparr>,
       Suc (nextAdj g) := \<lparr> m_twin = nextAdj g, m_edge = nullptr, m_node = w, m_id = 0 \<rparr>)"
  by (simp_all add: newAdjPair_eq Let_def)

lemma newEdge_sel:
  "snd (newEdge v w g) = nextEdge g"
  "nodes (fst (newEdge v w g)) = nodes g"
  "edges (fst (newEdge v w g)) = edges g @ [nextEdge g]"
  "m_hiddenEdges (fst (newEdge v w g)) = m_hiddenEdges g"
  "edgeMem (fst (newEdge v w g)) = (edgeMem g)(nextEdge g :=
      \<lparr> e_index = m_edgeIdCount g, m_src = v, m_tgt = w, m_adjSrc = nextAdj g,
        m_adjTgt = Suc (nextAdj g) \<rparr>)"
  "nextNode (fst (newEdge v w g)) = nextNode g"
  "nextEdge (fst (newEdge v w g)) = Suc (nextEdge g)"
  "nextAdj (fst (newEdge v w g)) = Suc (Suc (nextAdj g))"
  "nodeMem (fst (newEdge v w g)) =
     (let m1 = (nodeMem g)(v := (nodeMem g v)\<lparr> adjEdges := adjEdges (nodeMem g v) @ [nextAdj g],
                                   m_outdeg := m_outdeg (nodeMem g v) + 1 \<rparr>)
      in m1(w := (m1 w)\<lparr> adjEdges := adjEdges (m1 w) @ [Suc (nextAdj g)],
                           m_indeg := m_indeg (m1 w) + 1 \<rparr>))"
  "adjMem (fst (newEdge v w g)) = (adjMem g)
      (nextAdj g := \<lparr> m_twin = Suc (nextAdj g), m_edge = nextEdge g, m_node = v,
                       m_id = shl1 (m_edgeIdCount g) \<rparr>,
       Suc (nextAdj g) := \<lparr> m_twin = nextAdj g, m_edge = nextEdge g, m_node = w,
                             m_id = shl1 (m_edgeIdCount g) OR 1 \<rparr>)"
  by (simp_all add: newEdge_def setEdgeOfPair_def updAdj_def Let_def case_prod_beta fun_upd_twist)

lemma wf_emptyGraph: "wf emptyGraph"
  by (simp add: wf_def emptyGraph_def)

lemma wfNode_cong:
  assumes "nextNode g' \<ge> nextNode g" "nextAdj g' \<ge> nextAdj g"
    and "nodeMem g' v = nodeMem g v"
    and "\<forall>a \<in> set (adjEdges (nodeMem g v)). adjMem g' a = adjMem g a
           \<and> edgeMem g' (m_edge (adjMem g a)) = edgeMem g (m_edge (adjMem g a))"
    and "set (edges g) \<subseteq> set (edges g')"
    and "wfNode g v"
  shows "wfNode g' v"
proof -
  have "filter (\<lambda>adj. m_adjSrc (edgeMem g' (m_edge (adjMem g' adj))) \<noteq> adj) (adjEdges (nodeMem g v))
      = filter (\<lambda>adj. m_adjSrc (edgeMem g (m_edge (adjMem g adj))) \<noteq> adj) (adjEdges (nodeMem g v))"
    "filter (\<lambda>adj. m_adjSrc (edgeMem g' (m_edge (adjMem g' adj))) = adj) (adjEdges (nodeMem g v))
      = filter (\<lambda>adj. m_adjSrc (edgeMem g (m_edge (adjMem g adj))) = adj) (adjEdges (nodeMem g v))"
    using assms(4) by (auto intro!: filter_cong)
  then show ?thesis
    using assms by (auto simp: wfNode_def)
qed

lemma wfEdgeCore_cong:
  assumes "wfEdgeCore g e"
    and "nextEdge g \<le> nextEdge g'" "nextAdj g \<le> nextAdj g'" "set (nodes g) \<subseteq> set (nodes g')"
    and "edgeMem g' e = edgeMem g e"
    and "adjMem g' (m_adjSrc (edgeMem g e)) = adjMem g (m_adjSrc (edgeMem g e))"
    and "adjMem g' (m_adjTgt (edgeMem g e)) = adjMem g (m_adjTgt (edgeMem g e))"
  shows "wfEdgeCore g' e"
  using assms unfolding wfEdgeCore_def by auto

lemma wf_newNode_node:
  assumes "wf g" "v \<in> set (nodes g)"
  shows "wfNode (fst (newNode g)) v"
proof (rule wfNode_cong[where g = g])
  show "wfNode g v" using assms by (rule wf_nodeD)
  show "nodeMem (fst (newNode g)) v = nodeMem g v"
    using wf_nodeD(2)[OF assms] by simp
qed simp_all

lemma wf_newNode:
  assumes "wf g"
  shows "wf (fst (newNode g))"
proof -
  have n: "wfNode (fst (newNode g)) v" if "v \<in> set (nodes g)" for v
    using assms that by (rule wf_newNode_node)
  have n': "wfNode (fst (newNode g)) (nextNode g)"
    using assms by (simp add: wfNode_def wf_def)
  have e: "wfEdgeCore (fst (newNode g)) e" if "wfEdgeCore g e" for e
    using that by (rule wfEdgeCore_cong) auto
  have m: "nodeMem (fst (newNode g)) v = nodeMem g v" if "v \<in> set (nodes g)" for v
    using wf_nodeD(2)[OF assms that] by simp
  have ne: "v \<noteq> nextNode g" if "v \<in> set (nodes g)" for v
    using wf_nodeD(2)[OF assms that] by simp
  have e1: "wfEdge (fst (newNode g)) e" if "e \<in> set (edges g)" for e
  proof -
    have "wfEdge g e" using assms that by (rule wf_edgeD)
    then show ?thesis
      unfolding wfEdge_def using e[of e] ne[of "m_src (edgeMem g e)"] ne[of "m_tgt (edgeMem g e)"]
      by (simp add: wfEdgeCore_def)
  qed
  have e2: "wfHidden (fst (newNode g)) e" if "e \<in> set (m_hiddenEdges g)" for e
  proof -
    have "wfHidden g e" using assms that by (auto simp: wf_def list_all_iff)
    then show ?thesis
      unfolding wfHidden_def using e[of e] ne[of "m_src (edgeMem g e)"] ne[of "m_tgt (edgeMem g e)"]
      by (simp add: wfEdgeCore_def)
  qed
  show ?thesis
    using assms wf_fresh[OF assms] n n' e1 e2 by (simp add: wf_def list_all_iff)
qed

lemma emptyGraph_sel [simp]:
  "nodes emptyGraph = []" "edges emptyGraph = []" "m_hiddenEdges emptyGraph = []"
  "nextNode emptyGraph = Suc 0" "nextEdge emptyGraph = Suc 0" "nextAdj emptyGraph = Suc 0"
  "m_nodeIdCount emptyGraph = 0" "m_edgeIdCount emptyGraph = 0"
  "m_regStructures emptyGraph = []" "m_regAdjArrays emptyGraph = []"
  "calls emptyGraph = []"
  by (simp_all add: emptyGraph_def)

lemma twoNodes_sel:
  "nodes twoNodes = [Suc 0, 2]" "edges twoNodes = []" "m_hiddenEdges twoNodes = []"
  "nextNode twoNodes = 3" "nextEdge twoNodes = Suc 0" "nextAdj twoNodes = Suc 0"
  "nodeMem twoNodes (Suc 0) = \<lparr> n_index = 0, m_indeg = 0, m_outdeg = 0, adjEdges = [] \<rparr>"
  "nodeMem twoNodes 2 = \<lparr> n_index = 1, m_indeg = 0, m_outdeg = 0, adjEdges = [] \<rparr>"
  "m_edgeIdCount twoNodes = 0"
  by (simp_all add: twoNodes_def newNode_fields int32_def numeral_2_eq_2[symmetric])

lemma oneEdge_sel:
  "nodes oneEdge = [Suc 0, 2]" "edges oneEdge = [Suc 0]" "m_hiddenEdges oneEdge = []"
  "nextNode oneEdge = 3" "nextEdge oneEdge = 2" "nextAdj oneEdge = 3"
  "nodeMem oneEdge (Suc 0) = \<lparr> n_index = 0, m_indeg = 0, m_outdeg = 1, adjEdges = [Suc 0] \<rparr>"
  "nodeMem oneEdge 2 = \<lparr> n_index = 1, m_indeg = 1, m_outdeg = 0, adjEdges = [2] \<rparr>"
  "edgeMem oneEdge (Suc 0) = \<lparr> e_index = 0, m_src = Suc 0, m_tgt = 2, m_adjSrc = Suc 0, m_adjTgt = 2 \<rparr>"
  "adjMem oneEdge (Suc 0) = \<lparr> m_twin = 2, m_edge = Suc 0, m_node = Suc 0, m_id = 0 \<rparr>"
  "adjMem oneEdge 2 = \<lparr> m_twin = Suc 0, m_edge = Suc 0, m_node = 2, m_id = 1 \<rparr>"
  by (simp_all add: oneEdge_def newEdge_sel twoNodes_sel Let_def shl1_def int32_def numeral_2_eq_2[symmetric])

lemma newEdge_edgeIdCount: "m_edgeIdCount (fst (newEdge v w g)) = int32 (m_edgeIdCount g + 1)"
  using newEdge_tables[of v w g] createEdgeElement_tables[of v w _ _ g]
  by (simp add: tables_def split: if_splits)

lemma oneEdge_edgeIdCount: "m_edgeIdCount oneEdge = 1"
  by (simp add: oneEdge_def newEdge_edgeIdCount twoNodes_sel int32_def)

lemma wf_oneEdge: "wf oneEdge"
  by (simp add: wf_def wfNode_def wfEdge_def wfEdgeCore_def oneEdge_sel)

section \<open>Split and unsplit\<close>

text \<open>
  Claim C2. On a well-formed graph, \<open>split(e)\<close> followed by \<open>unsplit\<close> on the two
  resulting edges passes the assertions of \<open>unsplit\<close> and gives back the graph: the
  lists of nodes, edges and hidden edges are the ones before the split, and every node,
  edge and adjacency entry that existed before the split has the contents it had, so the
  identity on the elements is an isomorphism. The target-side adjacency entry of \<open>e\<close> is
  the original entry again and carries its original id, which the split had replaced by
  the odd id of the new edge. \<open>unsplit(eIn, eOut)\<close> passes its assertions exactly when
  the node \<open>u\<close> at the target of \<open>eIn\<close> has in-degree 1 and out-degree 1, is the source
  of \<open>eOut\<close>, and neither edge is a self-loop.
\<close>

theorem split_unsplit_roundtrip:
  assumes "wf g" "e \<in> set (edges g)"
  shows "(\<exists>g1 e2 g2. split e g = (g1, e2) \<and> unsplit e e2 g1 = Inr g2
           \<and> nodes g2 = nodes g \<and> edges g2 = edges g \<and> m_hiddenEdges g2 = m_hiddenEdges g
           \<and> (\<forall>v < nextNode g. nodeMem g2 v = nodeMem g v)
           \<and> (\<forall>e' < nextEdge g. edgeMem g2 e' = edgeMem g e')
           \<and> (\<forall>a < nextAdj g. adjMem g2 a = adjMem g a)
           \<and> m_adjTgt (edgeMem g2 e) = m_adjTgt (edgeMem g e)
           \<and> m_id (adjMem g2 (m_adjTgt (edgeMem g2 e))) = m_id (adjMem g (m_adjTgt (edgeMem g e)))
           \<and> m_id (adjMem g1 (m_adjTgt (edgeMem g e))) = shl1 (m_edgeIdCount g) OR 1)
     \<and> ((\<exists>g'. unsplit eIn eOut h = Inr g') \<longleftrightarrow>
          (indeg h (target h eIn) = 1 \<and> outdeg h (target h eIn) = 1
           \<and> source h eOut = target h eIn \<and> \<not> isSelfLoop h eIn \<and> \<not> isSelfLoop h eOut))"
proof -
  note c = wf_edgeD(2)[OF assms, unfolded wfEdgeCore_def]
  from c have b: "e < nextEdge g" "m_adjSrc (edgeMem g e) < nextAdj g"
    "m_adjTgt (edgeMem g e) < nextAdj g" "m_adjSrc (edgeMem g e) \<noteq> m_adjTgt (edgeMem g e)"
    by simp_all
  let ?g1 = "fst (split e g)"
  let ?g2 = "unsplit_merge e (nextEdge g) ?g1"
  have s: "split e g = (?g1, nextEdge g)"
    using split_sel(1)[of e g] by (simp add: prod_eq_iff)
  note r = split_unsplit[OF assms]
  have u: "unsplit e (nextEdge g) ?g1 = Inr ?g2"
    using r(1) by (simp add: split_sel)
  have t: "m_adjTgt (edgeMem ?g2 e) = m_adjTgt (edgeMem g e)"
    using r(6)[OF b(1)] by simp
  have i: "m_id (adjMem ?g2 (m_adjTgt (edgeMem ?g2 e))) = m_id (adjMem g (m_adjTgt (edgeMem g e)))"
    using r(7)[OF b(3)] t by simp
  have j: "m_id (adjMem ?g1 (m_adjTgt (edgeMem g e))) = shl1 (m_edgeIdCount g) OR 1"
    using b by (simp add: split_adjMem)
  have "\<exists>g1 e2 g2. split e g = (g1, e2) \<and> unsplit e e2 g1 = Inr g2
           \<and> nodes g2 = nodes g \<and> edges g2 = edges g \<and> m_hiddenEdges g2 = m_hiddenEdges g
           \<and> (\<forall>v < nextNode g. nodeMem g2 v = nodeMem g v)
           \<and> (\<forall>e' < nextEdge g. edgeMem g2 e' = edgeMem g e')
           \<and> (\<forall>a < nextAdj g. adjMem g2 a = adjMem g a)
           \<and> m_adjTgt (edgeMem g2 e) = m_adjTgt (edgeMem g e)
           \<and> m_id (adjMem g2 (m_adjTgt (edgeMem g2 e))) = m_id (adjMem g (m_adjTgt (edgeMem g e)))
           \<and> m_id (adjMem g1 (m_adjTgt (edgeMem g e))) = shl1 (m_edgeIdCount g) OR 1"
    using s u r(2,3,4,5,6,7) t i j by blast
  then show ?thesis using unsplit_ok_iff[of eIn eOut h] by blast
qed

theorem split_unsplit_roundtrip_witness:
  "wf oneEdge \<and> Suc 0 \<in> set (edges oneEdge)
   \<and> (\<exists>g1 e2 g2. split (Suc 0) oneEdge = (g1, e2) \<and> unsplit (Suc 0) e2 g1 = Inr g2
         \<and> nodes g2 = [Suc 0, 2] \<and> edges g2 = [Suc 0]
         \<and> m_adjTgt (edgeMem g2 (Suc 0)) = 2
         \<and> m_id (adjMem g2 (m_adjTgt (edgeMem g2 (Suc 0)))) = 1
         \<and> m_id (adjMem g1 2) = 3)"
proof -
  have h: "wf oneEdge" "Suc 0 \<in> set (edges oneEdge)"
    by (simp_all add: wf_oneEdge oneEdge_sel)
  have "shl1 (m_edgeIdCount oneEdge) OR 1 = 3"
    by (simp add: oneEdge_edgeIdCount shl1_def int32_def)
  with split_unsplit_roundtrip[OF h] h show ?thesis
    by (simp add: oneEdge_sel) blast
qed

section \<open>Searching an edge\<close>

lemma searchEdge_scan:
  "searchEdge v w g =
     (if degree g w < degree g v then firstEdgeTo g w v else firstEdgeTo g v w)"
  by (simp add: searchEdge_def firstEdgeTo_def)

lemma wf_rotation_entry:
  assumes "wf g" "x \<in> set (nodes g)" "adj \<in> set (adjEdges (nodeMem g x))"
  shows "theEdge g adj \<in> set (edges g)"
    and "joins g (theEdge g adj) x (twinNode g adj)"
proof -
  from wf_nodeD(1)[OF assms(1,2)] assms(3) have
    a: "m_node (adjMem g adj) = x" "m_edge (adjMem g adj) \<in> set (edges g)"
       "m_adjSrc (edgeMem g (m_edge (adjMem g adj))) = adj
        \<or> m_adjTgt (edgeMem g (m_edge (adjMem g adj))) = adj"
    by (auto simp: wfNode_def)
  show "theEdge g adj \<in> set (edges g)" using a(2) by (simp add: theEdge_def)
  from wf_edgeD(2)[OF assms(1) a(2)] a(1,3)
  show "joins g (theEdge g adj) x (twinNode g adj)"
    by (auto simp: wfEdgeCore_def joins_def theEdge_def twinNode_def)
qed

lemma wf_edge_entry:
  assumes "wf g" "e \<in> set (edges g)" "joins g e x y"
  shows "\<exists>adj \<in> set (adjEdges (nodeMem g x)). twinNode g adj = y"
proof -
  note c = wf_edgeD(1)[OF assms(1,2), unfolded wfEdge_def wfEdgeCore_def]
  from assms(3) consider "m_src (edgeMem g e) = x \<and> m_tgt (edgeMem g e) = y"
    | "m_src (edgeMem g e) = y \<and> m_tgt (edgeMem g e) = x"
    by (auto simp: joins_def)
  then show ?thesis
  proof cases
    case 1
    with c show ?thesis
      by (intro bexI[of _ "m_adjSrc (edgeMem g e)"]) (auto simp: twinNode_def)
  next
    case 2
    with c show ?thesis
      by (intro bexI[of _ "m_adjTgt (edgeMem g e)"]) (auto simp: twinNode_def)
  qed
qed

lemma firstEdgeTo_found:
  assumes "wf g" "x \<in> set (nodes g)" "firstEdgeTo g x y \<noteq> nullptr"
  shows "firstEdgeTo g x y \<in> set (edges g) \<and> joins g (firstEdgeTo g x y) x y"
proof -
  from assms(3) obtain adj where
    f: "find (\<lambda>adj. twinNode g adj = y) (adjEdges (nodeMem g x)) = Some adj"
    by (auto simp: firstEdgeTo_def split: option.splits)
  then have "adj \<in> set (adjEdges (nodeMem g x))" "twinNode g adj = y"
    by (auto simp: find_Some_iff)
  with wf_rotation_entry[OF assms(1,2), of adj] f show ?thesis
    by (simp add: firstEdgeTo_def)
qed

lemma firstEdgeTo_null_iff:
  assumes "wf g" "x \<in> set (nodes g)"
  shows "firstEdgeTo g x y = nullptr \<longleftrightarrow> (\<forall>e \<in> set (edges g). \<not> joins g e x y)"
proof
  assume n: "firstEdgeTo g x y = nullptr"
  show "\<forall>e \<in> set (edges g). \<not> joins g e x y"
  proof (intro ballI notI)
    fix e assume e: "e \<in> set (edges g)" "joins g e x y"
    from wf_edge_entry[OF assms(1) e] obtain adj where
      a: "adj \<in> set (adjEdges (nodeMem g x))" "twinNode g adj = y" by blast
    then obtain adj' where
      f: "find (\<lambda>adj. twinNode g adj = y) (adjEdges (nodeMem g x)) = Some adj'"
      by (cases "find (\<lambda>adj. twinNode g adj = y) (adjEdges (nodeMem g x))")
         (auto simp: find_None_iff)
    then have "adj' \<in> set (adjEdges (nodeMem g x))" by (auto simp: find_Some_iff)
    from wf_rotation_entry(1)[OF assms this] have "theEdge g adj' \<in> set (edges g)" .
    then have "0 < theEdge g adj'"
      using assms(1) by (auto simp: wf_def list_all_iff wfEdge_def wfEdgeCore_def)
    with n f show False by (simp add: firstEdgeTo_def)
  qed
next
  assume a: "\<forall>e \<in> set (edges g). \<not> joins g e x y"
  show "firstEdgeTo g x y = nullptr"
  proof (rule ccontr)
    assume "firstEdgeTo g x y \<noteq> nullptr"
    from firstEdgeTo_found[OF assms this] a show False by blast
  qed
qed

lemma joins_sym: "joins g e x y = joins g e y x"
  by (auto simp: joins_def)

lemma searchEdge_facts:
  assumes "wf g" "v \<in> set (nodes g)" "w \<in> set (nodes g)"
  shows "searchEdge v w g =
           (if degree g w < degree g v then firstEdgeTo g w v else firstEdgeTo g v w)"
    and "searchEdge v w g \<noteq> nullptr \<Longrightarrow>
           searchEdge v w g \<in> set (edges g) \<and> joins g (searchEdge v w g) v w"
    and "searchEdge v w g = nullptr \<longleftrightarrow> (\<forall>e \<in> set (edges g). \<not> joins g e v w)"
proof -
  show "searchEdge v w g =
           (if degree g w < degree g v then firstEdgeTo g w v else firstEdgeTo g v w)"
    by (rule searchEdge_scan)
  show "searchEdge v w g \<in> set (edges g) \<and> joins g (searchEdge v w g) v w"
    if "searchEdge v w g \<noteq> nullptr"
    using that firstEdgeTo_found[OF assms(1,2), of w] firstEdgeTo_found[OF assms(1,3), of v]
    by (auto simp: searchEdge_scan joins_sym split: if_splits)
  show "searchEdge v w g = nullptr \<longleftrightarrow> (\<forall>e \<in> set (edges g). \<not> joins g e v w)"
    using firstEdgeTo_null_iff[OF assms(1,2), of w] firstEdgeTo_null_iff[OF assms(1,3), of v]
    by (auto simp: searchEdge_scan joins_sym)
qed


text \<open>
  Claim C7, as the code has it. On a well-formed graph, \<open>searchEdge(v, w)\<close> scans the
  rotation of \<open>w\<close> when \<open>w\<close> has the smaller degree and the rotation of \<open>v\<close> otherwise,
  for the first entry whose twin lies on the other node; a result that is not null is an
  edge of the graph that joins \<open>v\<close> and \<open>w\<close>, and the result is null exactly when no edge
  joins them. The search is undirected: an edge from \<open>w\<close> to \<open>v\<close> joins them as well as
  an edge from \<open>v\<close> to \<open>w\<close>.
\<close>

theorem searchEdge_undirected:
  assumes "wf g" "v \<in> set (nodes g)" "w \<in> set (nodes g)"
  shows "searchEdge v w g =
           (if degree g w < degree g v then firstEdgeTo g w v else firstEdgeTo g v w)
     \<and> (searchEdge v w g \<noteq> nullptr \<longrightarrow>
           searchEdge v w g \<in> set (edges g) \<and> joins g (searchEdge v w g) v w)
     \<and> (searchEdge v w g = nullptr \<longleftrightarrow> (\<forall>e \<in> set (edges g). \<not> joins g e v w))"
  using searchEdge_facts[OF assms] by blast

theorem searchEdge_undirected_witness:
  "wf oneEdge \<and> Suc 0 \<in> set (nodes oneEdge) \<and> 2 \<in> set (nodes oneEdge)
   \<and> searchEdge (Suc 0) 2 oneEdge = Suc 0
   \<and> searchEdge (Suc 0) 2 oneEdge \<in> set (edges oneEdge)
   \<and> joins oneEdge (searchEdge (Suc 0) 2 oneEdge) (Suc 0) 2"
proof -
  have h: "wf oneEdge" "Suc 0 \<in> set (nodes oneEdge)" "2 \<in> set (nodes oneEdge)"
    by (simp_all add: wf_oneEdge oneEdge_sel)
  have "searchEdge (Suc 0) 2 oneEdge = Suc 0"
    by (simp add: searchEdge_def degree_def oneEdge_sel twinNode_def theEdge_def)
  with searchEdge_undirected[OF h] h show ?thesis by simp
qed

text \<open>
  The claim as stated fails: the only edge of the example graph goes from node 1 to
  node 2, and the search for an edge from node 2 to node 1 returns it.
\<close>

theorem searchEdge_finds_reverse_edge:
  "searchEdge 2 (Suc 0) oneEdge = Suc 0 \<and> searchEdge 2 (Suc 0) oneEdge \<noteq> nullptr
   \<and> source oneEdge (Suc 0) = Suc 0 \<and> target oneEdge (Suc 0) = 2
   \<and> edges oneEdge = [Suc 0]"
  by (simp add: searchEdge_def degree_def oneEdge_sel twinNode_def theEdge_def source_def
      target_def)

section \<open>The destructor\<close>

lemma fold_disconnect:
  "fold (disconnect k) as g =
     g\<lparr> arrMem := (arrMem g)(k := detachAll as (arrMem g k)),
        calls := calls g @ map (\<lambda>a. (disconnectCall k a, snapshot g)) as \<rparr>"
proof (induction as arbitrary: g)
  case Nil
  show ?case by (simp add: detachAll_def)
next
  case (Cons a as)
  have *: "detachAll as ((arrMem g k)(a := (arrMem g k a)\<lparr>a_attached := False\<rparr>))
             = detachAll (a # as) (arrMem g k)"
    by (auto simp: detachAll_def fun_eq_iff)
  have "fold (disconnect k) (a # as) g = fold (disconnect k) as (disconnect k a g)"
    by simp
  also have "\<dots> = (disconnect k a g)\<lparr>
        arrMem := (arrMem (disconnect k a g))(k := detachAll as (arrMem (disconnect k a g) k)),
        calls := calls (disconnect k a g)
                   @ map (\<lambda>b. (disconnectCall k b, snapshot (disconnect k a g))) as \<rparr>"
    by (rule Cons.IH)
  also have "\<dots> = g\<lparr> arrMem := (arrMem g)(k := detachAll (a # as) (arrMem g k)),
        calls := calls g @ map (\<lambda>b. (disconnectCall k b, snapshot g)) (a # as) \<rparr>"
    using * by (simp add: disconnect_def notify_def updArray_def)
  finally show ?case .
qed

lemma restoreEdge_sel [simp]:
  "nodes (restoreEdge e g) = nodes g"
  "edges (restoreEdge e g) = edges g @ [e]"
  "m_hiddenEdges (restoreEdge e g) = del e (m_hiddenEdges g)"
  "edgeMem (restoreEdge e g) = edgeMem g"
  "adjMem (restoreEdge e g) = adjMem g"
  "nextNode (restoreEdge e g) = nextNode g"
  "nextEdge (restoreEdge e g) = nextEdge g"
  "nextAdj (restoreEdge e g) = nextAdj g"
  "calls (restoreEdge e g) = calls g"
  "m_regStructures (restoreEdge e g) = m_regStructures g"
  "obsAttached (restoreEdge e g) = obsAttached g"
  "nodeMem (restoreEdge e g) =
     (let v = m_src (edgeMem g e); w = m_tgt (edgeMem g e);
          m1 = (nodeMem g)(v := (nodeMem g v)\<lparr> adjEdges := adjEdges (nodeMem g v) @ [m_adjSrc (edgeMem g e)],
                                   m_outdeg := m_outdeg (nodeMem g v) + 1 \<rparr>)
      in m1(w := (m1 w)\<lparr> adjEdges := adjEdges (m1 w) @ [m_adjTgt (edgeMem g e)],
                           m_indeg := m_indeg (m1 w) + 1 \<rparr>))"
  by (simp_all add: restoreEdge_def updNode_def pushBack_def Let_def)

lemma fold_restoreEdge_sel:
  "m_hiddenEdges (fold restoreEdge es g) = fold del es (m_hiddenEdges g)"
  "edges (fold restoreEdge es g) = edges g @ es"
  "nodes (fold restoreEdge es g) = nodes g"
  "edgeMem (fold restoreEdge es g) = edgeMem g"
  "adjMem (fold restoreEdge es g) = adjMem g"
  "calls (fold restoreEdge es g) = calls g"
  "m_regStructures (fold restoreEdge es g) = m_regStructures g"
  "obsAttached (fold restoreEdge es g) = obsAttached g"
  by (induction es arbitrary: g) simp_all

lemma fold_del_all: "mset xs = mset ys \<Longrightarrow> fold del xs ys = []"
proof (induction xs arbitrary: ys)
  case Nil
  then show ?case by simp
next
  case (Cons x xs)
  then have "mset xs = mset (del x ys)"
    by (metis add_mset_remove_trivial del_def mset.simps(2) mset_remove1)
  from Cons.IH[OF this] show ?case by simp
qed

lemma restoreAllEdges_sel:
  "m_hiddenEdges (restoreAllEdges g) = []"
  "edges (restoreAllEdges g) = edges g @ rev (m_hiddenEdges g)"
  "nodes (restoreAllEdges g) = nodes g"
  "edgeMem (restoreAllEdges g) = edgeMem g"
  "adjMem (restoreAllEdges g) = adjMem g"
  "calls (restoreAllEdges g) = calls g"
  "m_regStructures (restoreAllEdges g) = m_regStructures g"
  "obsAttached (restoreAllEdges g) = obsAttached g"
  by (simp_all add: restoreAllEdges_def fold_restoreEdge_sel fold_del_all)

lemma fold_clear_rotations:
  "fold (\<lambda>v. updNode v (\<lambda>n. n\<lparr> adjEdges := [] \<rparr>)) vs g =
     g\<lparr> nodeMem := fold (\<lambda>v m. m(v := (m v)\<lparr> adjEdges := [] \<rparr>)) vs (nodeMem g) \<rparr>"
  by (induction vs arbitrary: g) (simp_all add: updNode_def)

lemma tables_regs:
  "tables g' = tables g \<Longrightarrow> m_regNodeArrays g' = m_regNodeArrays g
     \<and> m_regEdgeArrays g' = m_regEdgeArrays g \<and> m_regAdjArrays g' = m_regAdjArrays g
     \<and> arrMem g' = arrMem g"
  by (simp add: tables_def)

lemma destroyGraph_facts:
  "m_hiddenEdges (restoreAllEdges g) = []"
  "a \<in> set (m_regNodeArrays g) \<Longrightarrow> \<not> a_attached (arrMem (destroyGraph g) NodeArrayKind a)"
  "a \<in> set (m_regEdgeArrays g) \<Longrightarrow> \<not> a_attached (arrMem (destroyGraph g) EdgeArrayKind a)"
  "a \<in> set (m_regAdjArrays g) \<Longrightarrow> \<not> a_attached (arrMem (destroyGraph g) AdjEntryArrayKind a)"
  "calls (destroyGraph g) = calls g
      @ map (\<lambda>a. (disconnectCall NodeArrayKind a, snapshot (restoreAllEdges g))) (m_regNodeArrays g)
      @ map (\<lambda>a. (disconnectCall EdgeArrayKind a, snapshot (restoreAllEdges g))) (m_regEdgeArrays g)
      @ map (\<lambda>a. (disconnectCall AdjEntryArrayKind a, snapshot (restoreAllEdges g))) (m_regAdjArrays g)"
  "obsAttached (destroyGraph g) = obsAttached g"
  "m_regStructures (destroyGraph g) = m_regStructures g"
proof -
  note t = tables_regs[OF tables_restoreAllEdges[of g]]
  show "m_hiddenEdges (restoreAllEdges g) = []" by (simp add: restoreAllEdges_sel)
  show "\<not> a_attached (arrMem (destroyGraph g) NodeArrayKind a)" if "a \<in> set (m_regNodeArrays g)"
    using that t by (simp add: destroyGraph_def Let_def fold_disconnect fold_clear_rotations detachAll_def)
  show "\<not> a_attached (arrMem (destroyGraph g) EdgeArrayKind a)" if "a \<in> set (m_regEdgeArrays g)"
    using that t by (simp add: destroyGraph_def Let_def fold_disconnect fold_clear_rotations detachAll_def)
  show "\<not> a_attached (arrMem (destroyGraph g) AdjEntryArrayKind a)" if "a \<in> set (m_regAdjArrays g)"
    using that t by (simp add: destroyGraph_def Let_def fold_disconnect fold_clear_rotations detachAll_def)
  show "calls (destroyGraph g) = calls g
      @ map (\<lambda>a. (disconnectCall NodeArrayKind a, snapshot (restoreAllEdges g))) (m_regNodeArrays g)
      @ map (\<lambda>a. (disconnectCall EdgeArrayKind a, snapshot (restoreAllEdges g))) (m_regEdgeArrays g)
      @ map (\<lambda>a. (disconnectCall AdjEntryArrayKind a, snapshot (restoreAllEdges g))) (m_regAdjArrays g)"
    using t by (simp add: destroyGraph_def Let_def fold_disconnect fold_clear_rotations restoreAllEdges_sel)
  show "obsAttached (destroyGraph g) = obsAttached g"
    by (simp add: destroyGraph_def Let_def fold_disconnect fold_clear_rotations restoreAllEdges_sel)
  show "m_regStructures (destroyGraph g) = m_regStructures g"
    by (simp add: destroyGraph_def Let_def fold_disconnect fold_clear_rotations restoreAllEdges_sel)
qed

text \<open>
  Claim C9, as the code has it. The destructor first restores all hidden edges: every
  \<open>disconnect\<close> call it makes sees a graph whose list of hidden edges is empty and whose
  list of edges ends with the restored ones. It then disconnects every registered node
  array, edge array and adjacency-entry array, in this order and in registration order,
  and leaves each of them detached. It makes no call on an observer: the registry of
  observers and the attachment of every observer are as before.
\<close>

theorem destructor_disconnects_arrays:
  "(\<forall>a \<in> set (m_regNodeArrays g). \<not> a_attached (arrMem (destroyGraph g) NodeArrayKind a))
   \<and> (\<forall>a \<in> set (m_regEdgeArrays g). \<not> a_attached (arrMem (destroyGraph g) EdgeArrayKind a))
   \<and> (\<forall>a \<in> set (m_regAdjArrays g). \<not> a_attached (arrMem (destroyGraph g) AdjEntryArrayKind a))
   \<and> calls (destroyGraph g) = calls g
      @ map (\<lambda>a. (disconnectCall NodeArrayKind a, snapshot (restoreAllEdges g))) (m_regNodeArrays g)
      @ map (\<lambda>a. (disconnectCall EdgeArrayKind a, snapshot (restoreAllEdges g))) (m_regEdgeArrays g)
      @ map (\<lambda>a. (disconnectCall AdjEntryArrayKind a, snapshot (restoreAllEdges g))) (m_regAdjArrays g)
   \<and> s_hiddenEdges (snapshot (restoreAllEdges g)) = []
   \<and> s_edges (snapshot (restoreAllEdges g)) = edges g @ rev (m_hiddenEdges g)
   \<and> obsAttached (destroyGraph g) = obsAttached g
   \<and> m_regStructures (destroyGraph g) = m_regStructures g"
  using destroyGraph_facts[where g = g]
  by (simp add: snapshot_def restoreAllEdges_sel)

theorem destructor_disconnects_arrays_witness:
  "7 \<in> set (m_regNodeArrays (registerNodeArray 7 emptyGraph))
   \<and> a_attached (arrMem (registerNodeArray 7 emptyGraph) NodeArrayKind 7)
   \<and> \<not> a_attached (arrMem (destroyGraph (registerNodeArray 7 emptyGraph)) NodeArrayKind 7)"
  using destructor_disconnects_arrays[of "registerNodeArray 7 emptyGraph"]
  by (simp add: registerNodeArray_def updArray_def)

text \<open>
  The claim as stated fails for observers: an observer that is registered when the graph
  is destroyed receives no call and is still attached afterwards.
\<close>

theorem destructor_leaves_observer_attached:
  "5 \<in> set (m_regStructures (registerStructure 5 emptyGraph))
   \<and> obsAttached (destroyGraph (registerStructure 5 emptyGraph)) 5
   \<and> calls (destroyGraph (registerStructure 5 emptyGraph)) = []"
  by (simp add: destroyGraph_facts) (simp add: registerStructure_def emptyGraph_def)

section \<open>Hiding and restoring edges\<close>

lemma hideEdge_sel [simp]:
  "nodes (hideEdge e g) = nodes g"
  "edges (hideEdge e g) = del e (edges g)"
  "m_hiddenEdges (hideEdge e g) = m_hiddenEdges g @ [e]"
  "edgeMem (hideEdge e g) = edgeMem g"
  "adjMem (hideEdge e g) = adjMem g"
  "nextNode (hideEdge e g) = nextNode g"
  "nextEdge (hideEdge e g) = nextEdge g"
  "nextAdj (hideEdge e g) = nextAdj g"
  "calls (hideEdge e g) = calls g"
  "nodeMem (hideEdge e g) =
     (let v = m_src (edgeMem g e); w = m_tgt (edgeMem g e);
          m1 = (nodeMem g)(v := (nodeMem g v)\<lparr> adjEdges := del (m_adjSrc (edgeMem g e)) (adjEdges (nodeMem g v)),
                                   m_outdeg := m_outdeg (nodeMem g v) - 1 \<rparr>)
      in m1(w := (m1 w)\<lparr> adjEdges := del (m_adjTgt (edgeMem g e)) (adjEdges (m1 w)),
                           m_indeg := m_indeg (m1 w) - 1 \<rparr>))"
  by (simp_all add: hideEdge_def updNode_def pushBack_def Let_def)

lemma hideEdge_degrees:
  "m_indeg (nodeMem (hideEdge e g) x) =
     m_indeg (nodeMem g x) - (if x = m_tgt (edgeMem g e) then 1 else 0)"
  "m_outdeg (nodeMem (hideEdge e g) x) =
     m_outdeg (nodeMem g x) - (if x = m_src (edgeMem g e) then 1 else 0)"
  by (simp_all add: Let_def)

lemma restoreEdge_degrees:
  "m_indeg (nodeMem (restoreEdge e g) x) =
     m_indeg (nodeMem g x) + (if x = m_tgt (edgeMem g e) then 1 else 0)"
  "m_outdeg (nodeMem (restoreEdge e g) x) =
     m_outdeg (nodeMem g x) + (if x = m_src (edgeMem g e) then 1 else 0)"
  by (simp_all add: Let_def)

lemma hide_restore_rotation:
  "adjEdges (nodeMem (restoreEdge e (hideEdge e g)) x) =
     (if x = m_tgt (edgeMem g e) then del (m_adjTgt (edgeMem g e)) else id)
       ((if x = m_src (edgeMem g e) then del (m_adjSrc (edgeMem g e)) else id)
          (adjEdges (nodeMem g x)))
     @ (if x = m_src (edgeMem g e) then [m_adjSrc (edgeMem g e)] else [])
     @ (if x = m_tgt (edgeMem g e) then [m_adjTgt (edgeMem g e)] else [])"
  by (simp add: Let_def)

lemma fold_hideEdge_sel:
  "m_hiddenEdges (fold hideEdge es g) = m_hiddenEdges g @ es"
  "edges (fold hideEdge es g) = fold del es (edges g)"
  "edgeMem (fold hideEdge es g) = edgeMem g"
  "adjMem (fold hideEdge es g) = adjMem g"
  "nodes (fold hideEdge es g) = nodes g"
  by (induction es arbitrary: g) simp_all

lemma fold_hideEdge_degrees:
  "m_indeg (nodeMem (fold hideEdge es g) x) =
     m_indeg (nodeMem g x) - int (length (filter (\<lambda>e. m_tgt (edgeMem g e) = x) es))"
  "m_outdeg (nodeMem (fold hideEdge es g) x) =
     m_outdeg (nodeMem g x) - int (length (filter (\<lambda>e. m_src (edgeMem g e) = x) es))"
  by (induction es arbitrary: g) (simp_all add: hideEdge_degrees del: hideEdge_sel(10))

lemma fold_restoreEdge_degrees:
  "m_indeg (nodeMem (fold restoreEdge es g) x) =
     m_indeg (nodeMem g x) + int (length (filter (\<lambda>e. m_tgt (edgeMem g e) = x) es))"
  "m_outdeg (nodeMem (fold restoreEdge es g) x) =
     m_outdeg (nodeMem g x) + int (length (filter (\<lambda>e. m_src (edgeMem g e) = x) es))"
  by (induction es arbitrary: g) (simp_all add: restoreEdge_degrees del: restoreEdge_sel(12))

lemma add_mset_del: "a \<in> set xs \<Longrightarrow> add_mset a (mset (del a xs)) = mset xs"
  by (simp add: del_def)

lemma mset_fold_del:
  "distinct es \<Longrightarrow> set es \<subseteq> set xs \<Longrightarrow> mset (fold del es xs) + mset es = mset xs"
proof (induction es arbitrary: xs)
  case Nil
  then show ?case by simp
next
  case (Cons e es)
  then have "set es \<subseteq> set (del e xs)"
    by (metis del_def distinct.simps(2) in_set_remove1 list.set_intros(2) subset_code(1))
  with Cons have "mset (fold del es (del e xs)) + mset es = mset (del e xs)" by simp
  then show ?case using Cons.prems add_mset_del[of e xs] by simp
qed

lemma hide_all_restore_all:
  assumes "distinct es" "set es \<subseteq> set (edges g)" "m_hiddenEdges g = []"
  shows "m_hiddenEdges (fold hideEdge es g) = es"
    and "m_hiddenEdges (restoreAllEdges (fold hideEdge es g)) = []"
    and "mset (edges (restoreAllEdges (fold hideEdge es g))) = mset (edges g)"
    and "m_indeg (nodeMem (restoreAllEdges (fold hideEdge es g)) x) = m_indeg (nodeMem g x)"
    and "m_outdeg (nodeMem (restoreAllEdges (fold hideEdge es g)) x) = m_outdeg (nodeMem g x)"
    and "edgeMem (restoreAllEdges (fold hideEdge es g)) = edgeMem g"
    and "adjMem (restoreAllEdges (fold hideEdge es g)) = adjMem g"
proof -
  show "m_hiddenEdges (fold hideEdge es g) = es"
    using assms(3) by (simp add: fold_hideEdge_sel)
  show "m_hiddenEdges (restoreAllEdges (fold hideEdge es g)) = []"
    by (simp add: restoreAllEdges_sel)
  show "mset (edges (restoreAllEdges (fold hideEdge es g))) = mset (edges g)"
    using mset_fold_del[OF assms(1,2)] assms(3)
    by (simp add: restoreAllEdges_sel fold_hideEdge_sel)
  show "m_indeg (nodeMem (restoreAllEdges (fold hideEdge es g)) x) = m_indeg (nodeMem g x)"
    using assms(3)
    by (simp add: restoreAllEdges_def fold_restoreEdge_degrees fold_hideEdge_degrees fold_hideEdge_sel
        rev_filter[symmetric])
  show "m_outdeg (nodeMem (restoreAllEdges (fold hideEdge es g)) x) = m_outdeg (nodeMem g x)"
    using assms(3)
    by (simp add: restoreAllEdges_def fold_restoreEdge_degrees fold_hideEdge_degrees fold_hideEdge_sel
        rev_filter[symmetric])
  show "edgeMem (restoreAllEdges (fold hideEdge es g)) = edgeMem g"
    by (simp add: restoreAllEdges_sel fold_hideEdge_sel)
  show "adjMem (restoreAllEdges (fold hideEdge es g)) = adjMem g"
    by (simp add: restoreAllEdges_sel fold_hideEdge_sel)
qed

lemma add_mset_del2:
  assumes "a \<in> set xs" "b \<in> set xs" "a \<noteq> b"
  shows "add_mset b (add_mset a (mset (del b (del a xs)))) = mset xs"
proof -
  have "b \<in> set (del a xs)" using assms by (simp add: del_def in_set_remove1)
  then have "add_mset b (mset (del b (del a xs))) = mset (del a xs)" by (rule add_mset_del)
  then have "add_mset a (add_mset b (mset (del b (del a xs)))) = mset xs"
    using add_mset_del[OF assms(1)] by simp
  then show ?thesis by (simp add: add_mset_commute)
qed

lemma hide_restore_one:
  assumes "wf g" "e \<in> set (edges g)"
  shows "edgeMem (restoreEdge e (hideEdge e g)) = edgeMem g"
    and "adjMem (restoreEdge e (hideEdge e g)) = adjMem g"
    and "m_indeg (nodeMem (restoreEdge e (hideEdge e g)) x) = m_indeg (nodeMem g x)"
    and "m_outdeg (nodeMem (restoreEdge e (hideEdge e g)) x) = m_outdeg (nodeMem g x)"
    and "edges (restoreEdge e (hideEdge e g)) = del e (edges g) @ [e]"
    and "m_hiddenEdges (restoreEdge e (hideEdge e g)) = m_hiddenEdges g"
    and "mset (adjEdges (nodeMem (restoreEdge e (hideEdge e g)) x)) = mset (adjEdges (nodeMem g x))"
    and "last (adjEdges (nodeMem (restoreEdge e (hideEdge e g)) (m_tgt (edgeMem g e))))
           = m_adjTgt (edgeMem g e)"
    and "m_src (edgeMem g e) \<noteq> m_tgt (edgeMem g e) \<Longrightarrow>
         last (adjEdges (nodeMem (restoreEdge e (hideEdge e g)) (m_src (edgeMem g e))))
           = m_adjSrc (edgeMem g e)"
    and "m_src (edgeMem g e) = m_tgt (edgeMem g e) \<Longrightarrow>
         \<exists>xs. adjEdges (nodeMem (restoreEdge e (hideEdge e g)) (m_src (edgeMem g e)))
           = xs @ [m_adjSrc (edgeMem g e), m_adjTgt (edgeMem g e)]"
proof -
  note c = wf_edgeD(1)[OF assms, unfolded wfEdge_def wfEdgeCore_def]
  have nh: "e \<notin> set (m_hiddenEdges g)"
    using assms by (auto simp: wf_def)
  show "edgeMem (restoreEdge e (hideEdge e g)) = edgeMem g"
    "adjMem (restoreEdge e (hideEdge e g)) = adjMem g"
    "edges (restoreEdge e (hideEdge e g)) = del e (edges g) @ [e]"
    by simp_all
  show "m_indeg (nodeMem (restoreEdge e (hideEdge e g)) x) = m_indeg (nodeMem g x)"
    "m_outdeg (nodeMem (restoreEdge e (hideEdge e g)) x) = m_outdeg (nodeMem g x)"
    by (simp_all add: restoreEdge_degrees hideEdge_degrees del: hideEdge_sel(10) restoreEdge_sel(12))
  show "m_hiddenEdges (restoreEdge e (hideEdge e g)) = m_hiddenEdges g"
    using nh by (simp add: del_def remove1_append)
  show "mset (adjEdges (nodeMem (restoreEdge e (hideEdge e g)) x)) = mset (adjEdges (nodeMem g x))"
    using c
    by (auto simp: hide_restore_rotation add_mset_del add_mset_del2
        simp del: hideEdge_sel(10) restoreEdge_sel(12))
  show "last (adjEdges (nodeMem (restoreEdge e (hideEdge e g)) (m_tgt (edgeMem g e))))
           = m_adjTgt (edgeMem g e)"
    by (simp add: hide_restore_rotation del: hideEdge_sel(10) restoreEdge_sel(12))
  show "last (adjEdges (nodeMem (restoreEdge e (hideEdge e g)) (m_src (edgeMem g e))))
           = m_adjSrc (edgeMem g e)" if "m_src (edgeMem g e) \<noteq> m_tgt (edgeMem g e)"
    using that by (simp add: hide_restore_rotation del: hideEdge_sel(10) restoreEdge_sel(12))
  show "\<exists>xs. adjEdges (nodeMem (restoreEdge e (hideEdge e g)) (m_src (edgeMem g e)))
           = xs @ [m_adjSrc (edgeMem g e), m_adjTgt (edgeMem g e)]"
    if "m_src (edgeMem g e) = m_tgt (edgeMem g e)"
    using that by (simp add: hide_restore_rotation del: hideEdge_sel(10) restoreEdge_sel(12))
qed



section \<open>Deleting edges and nodes\<close>

lemma delEdge_sel [simp]:
  "nodes (delEdge e g) = nodes g"
  "edges (delEdge e g) = del e (edges g)"
  "m_hiddenEdges (delEdge e g) = m_hiddenEdges g"
  "edgeMem (delEdge e g) = edgeMem g"
  "adjMem (delEdge e g) = adjMem g"
  "nextNode (delEdge e g) = nextNode g"
  "nextEdge (delEdge e g) = nextEdge g"
  "nextAdj (delEdge e g) = nextAdj g"
  "m_regStructures (delEdge e g) = m_regStructures g"
  "calls (delEdge e g) = calls g @ map (\<lambda>obs. (edgeDeleted obs e, snapshot g)) (m_regStructures g)"
  "nodeMem (delEdge e g) = nodeMem (hideEdge e g)"
  by (simp_all add: delEdge_def fold_notify updNode_def Let_def)

lemma length_filter_remove1:
  "a \<in> set xs \<Longrightarrow>
   length (filter P xs) = length (filter P (remove1 a xs)) + (if P a then 1 else 0)"
  by (induction xs) auto

lemma count_unlink:
  assumes "s \<noteq> t" "(s \<in> set r) = bs" "(t \<in> set r) = bt"
  shows "int (length (filter P ((if bt then remove1 t else id) ((if bs then remove1 s else id) r))))
     = int (length (filter P r)) - (if bs \<and> P s then 1 else 0) - (if bt \<and> P t then 1 else 0)"
proof -
  have 1: "int (length (filter P ((if bs then remove1 s else id) r)))
             = int (length (filter P r)) - (if bs \<and> P s then 1 else 0)"
    using assms(2) length_filter_remove1[of s r P] by auto
  have "(t \<in> set ((if bs then remove1 s else id) r)) = bt"
    using assms by (auto simp: in_set_remove1)
  then have 2: "int (length (filter P ((if bt then remove1 t else id) ((if bs then remove1 s else id) r))))
             = int (length (filter P ((if bs then remove1 s else id) r))) - (if bt \<and> P t then 1 else 0)"
    using length_filter_remove1[of t "(if bs then remove1 s else id) r" P] by auto
  show ?thesis using 1 2 by simp
qed

text \<open>The rotation of a node after the two entries of \<open>e\<close> have been taken out.\<close>

lemma unlinked_rotation:
  "adjEdges (nodeMem (hideEdge e g) x) =
     (if x = m_tgt (edgeMem g e) then del (m_adjTgt (edgeMem g e)) else id)
       ((if x = m_src (edgeMem g e) then del (m_adjSrc (edgeMem g e)) else id)
          (adjEdges (nodeMem g x)))"
  by (simp add: Let_def)

lemma unlinked_subset:
  "set (adjEdges (nodeMem (hideEdge e g) x)) \<subseteq> set (adjEdges (nodeMem g x))"
  using set_remove1_subset[of "m_adjTgt (edgeMem g e)"] set_remove1_subset[of "m_adjSrc (edgeMem g e)"]
  by (auto simp: unlinked_rotation del_def simp del: hideEdge_sel(10))

lemma unlinked_node:
  assumes "wf g" "e \<in> set (edges g)" "x \<in> set (nodes g)"
  shows "distinct (adjEdges (nodeMem (hideEdge e g) x))"
    and "set (adjEdges (nodeMem (hideEdge e g) x))
           = set (adjEdges (nodeMem g x)) - {m_adjSrc (edgeMem g e), m_adjTgt (edgeMem g e)}"
    and "m_indeg (nodeMem (hideEdge e g) x) =
          int (length (filter (\<lambda>adj. m_adjSrc (edgeMem g (m_edge (adjMem g adj))) \<noteq> adj)
                 (adjEdges (nodeMem (hideEdge e g) x))))"
    and "m_outdeg (nodeMem (hideEdge e g) x) =
          int (length (filter (\<lambda>adj. m_adjSrc (edgeMem g (m_edge (adjMem g adj))) = adj)
                 (adjEdges (nodeMem (hideEdge e g) x))))"
proof -
  note c = wf_edgeD(1)[OF assms(1,2), unfolded wfEdge_def wfEdgeCore_def]
  note n = wf_nodeD(1)[OF assms(1,3), unfolded wfNode_def]
  let ?s = "m_adjSrc (edgeMem g e)" and ?t = "m_adjTgt (edgeMem g e)"
  let ?r = "adjEdges (nodeMem g x)"
  have d: "distinct ?r" using n by simp
  have s_in: "?s \<in> set ?r \<longleftrightarrow> x = m_src (edgeMem g e)"
    using c n by auto
  have t_in: "?t \<in> set ?r \<longleftrightarrow> x = m_tgt (edgeMem g e)"
    using c n by auto
  show "distinct (adjEdges (nodeMem (hideEdge e g) x))"
    using d by (auto simp: unlinked_rotation del_def simp del: hideEdge_sel(10))
  show "set (adjEdges (nodeMem (hideEdge e g) x)) = set ?r - {?s, ?t}"
    using d s_in t_in
    by (auto simp: unlinked_rotation del_def simp del: hideEdge_sel(10))
  have ps: "m_adjSrc (edgeMem g (m_edge (adjMem g ?s))) = ?s"
    and pt: "m_adjSrc (edgeMem g (m_edge (adjMem g ?t))) \<noteq> ?t"
    and st: "?s \<noteq> ?t"
    using c by auto
  have r': "adjEdges (nodeMem (hideEdge e g) x) =
      (if x = m_tgt (edgeMem g e) then remove1 ?t else id)
        ((if x = m_src (edgeMem g e) then remove1 ?s else id) ?r)"
    by (auto simp: unlinked_rotation del_def simp del: hideEdge_sel(10))
  show "m_indeg (nodeMem (hideEdge e g) x) =
          int (length (filter (\<lambda>adj. m_adjSrc (edgeMem g (m_edge (adjMem g adj))) \<noteq> adj)
                 (adjEdges (nodeMem (hideEdge e g) x))))"
    unfolding r' count_unlink[OF st s_in t_in] using n ps pt
    by (simp add: hideEdge_degrees del: hideEdge_sel(10))
  show "m_outdeg (nodeMem (hideEdge e g) x) =
          int (length (filter (\<lambda>adj. m_adjSrc (edgeMem g (m_edge (adjMem g adj))) = adj)
                 (adjEdges (nodeMem (hideEdge e g) x))))"
    unfolding r' count_unlink[OF st s_in t_in] using n ps pt
    by (simp add: hideEdge_degrees del: hideEdge_sel(10))
qed

lemma wfEdgeCore_unlinked:
  "wfEdgeCore (delEdge e g) e' = wfEdgeCore g e'"
  "wfEdgeCore (hideEdge e g) e' = wfEdgeCore g e'"
  by (simp_all add: wfEdgeCore_def)

lemma wf_unlink_nodes:
  assumes "wf g" "e \<in> set (edges g)" "x \<in> set (nodes g)"
    and g': "nodes g' = nodes g" "nextNode g' = nextNode g" "nextAdj g' = nextAdj g"
      "edgeMem g' = edgeMem g" "adjMem g' = adjMem g" "nodeMem g' = nodeMem (hideEdge e g)"
      "set (edges g') = set (edges g) - {e}"
  shows "wfNode g' x"
proof -
  note c = wf_edgeD(1)[OF assms(1,2), unfolded wfEdge_def wfEdgeCore_def]
  note n = wf_nodeD(1)[OF assms(1,3), unfolded wfNode_def]
  note u = unlinked_node[OF assms(1,2,3)]
  have "m_edge (adjMem g a) \<noteq> e" if "a \<in> set (adjEdges (nodeMem (hideEdge e g) x))" for a
  proof
    assume "m_edge (adjMem g a) = e"
    moreover have "a \<in> set (adjEdges (nodeMem g x))" using that u(2) by simp
    ultimately have "a = m_adjSrc (edgeMem g e) \<or> a = m_adjTgt (edgeMem g e)"
      using n by auto
    with that u(2) show False by auto
  qed
  then show ?thesis
    unfolding wfNode_def g' using n u by auto
qed

lemma wf_unlink_edges:
  assumes "wf g" "e \<in> set (edges g)" "e' \<in> set (edges g)" "e' \<noteq> e"
  shows "m_adjSrc (edgeMem g e') \<in> set (adjEdges (nodeMem (hideEdge e g) (m_src (edgeMem g e'))))"
    and "m_adjTgt (edgeMem g e') \<in> set (adjEdges (nodeMem (hideEdge e g) (m_tgt (edgeMem g e'))))"
proof -
  note c = wf_edgeD(1)[OF assms(1,2), unfolded wfEdge_def wfEdgeCore_def]
  note c' = wf_edgeD(1)[OF assms(1,3), unfolded wfEdge_def wfEdgeCore_def]
  have s: "m_src (edgeMem g e') \<in> set (nodes g)" and t: "m_tgt (edgeMem g e') \<in> set (nodes g)"
    using c' by auto
  show "m_adjSrc (edgeMem g e') \<in> set (adjEdges (nodeMem (hideEdge e g) (m_src (edgeMem g e'))))"
    unfolding unlinked_node(2)[OF assms(1,2) s] using c c' assms(4) by auto
  show "m_adjTgt (edgeMem g e') \<in> set (adjEdges (nodeMem (hideEdge e g) (m_tgt (edgeMem g e'))))"
    unfolding unlinked_node(2)[OF assms(1,2) t] using c c' assms(4) by auto
qed

lemma wf_delEdge:
  assumes "wf g" "e \<in> set (edges g)"
  shows "wf (delEdge e g)"
proof -
  have d: "distinct (edges g)" "distinct (m_hiddenEdges g)"
    "set (edges g) \<inter> set (m_hiddenEdges g) = {}"
    using assms(1) by (auto simp: wf_def)
  have se: "set (edges (delEdge e g)) = set (edges g) - {e}"
    using d by (simp add: del_def)
  have n: "wfNode (delEdge e g) x" if "x \<in> set (nodes g)" for x
    by (rule wf_unlink_nodes[OF assms that]) (simp_all add: se del: delEdge_sel(2))
  have e1: "wfEdge (delEdge e g) e'" if "e' \<in> set (edges g)" "e' \<noteq> e" for e'
    using wf_edgeD[OF assms(1) that(1)] wf_unlink_edges[OF assms that]
    by (simp add: wfEdge_def wfEdgeCore_unlinked)
  have e2: "wfHidden (delEdge e g) e'" if "e' \<in> set (m_hiddenEdges g)" for e'
  proof -
    have "wfHidden g e'" using assms(1) that by (auto simp: wf_def list_all_iff)
    then show ?thesis
      using unlinked_subset[of e g] by (auto simp: wfHidden_def wfEdgeCore_unlinked)
  qed
  have de: "distinct (edges (delEdge e g))" using d by (simp add: del_def)
  show ?thesis
    using assms(1) d n e1 e2 se de
    by (auto simp: wf_def list_all_iff simp del: delEdge_sel(2))
qed

lemma wf_calls [simp]: "wf (g\<lparr> calls := c \<rparr>) = wf g"
  by (simp add: wf_def wfNode_def wfEdge_def wfHidden_def wfEdgeCore_def list_all_iff)

lemma delEdge_calls:
  "calls (delEdge e g) = calls g @ deletionRound (m_regStructures g) (\<lambda>obs. edgeDeleted obs e) (snapshot g)"
  by (simp add: deletionRound_def)

lemma registerStructure_sel [simp]:
  "nodes (registerStructure obs g) = nodes g"
  "edges (registerStructure obs g) = edges g"
  "m_hiddenEdges (registerStructure obs g) = m_hiddenEdges g"
  "nodeMem (registerStructure obs g) = nodeMem g"
  "edgeMem (registerStructure obs g) = edgeMem g"
  "adjMem (registerStructure obs g) = adjMem g"
  "nextNode (registerStructure obs g) = nextNode g"
  "nextEdge (registerStructure obs g) = nextEdge g"
  "nextAdj (registerStructure obs g) = nextAdj g"
  "m_regStructures (registerStructure obs g) = m_regStructures g @ [obs]"
  "calls (registerStructure obs g) = calls g"
  by (simp_all add: registerStructure_def)

lemma m_regStructures_unsplit_merge [simp]:
  "m_regStructures (unsplit_merge eIn eOut g) = m_regStructures g"
  by (simp add: unsplit_merge_def resetAdjEntryIndex_def fold_notify updAdj_def updEdge_def
      target_def Let_def)

lemma nodeIdCount_oneEdge: "m_nodeIdCount oneEdge = 2"
  using newEdge_tables[of 1 2 twoNodes] createEdgeElement_tables[of 1 2 _ _ twoNodes]
  by (simp add: oneEdge_def tables_def twoNodes_counts split: if_splits)

lemma regStructures_newAdjPair [simp]:
  "m_regStructures (fst (newAdjPair v w g)) = m_regStructures g"
  by (simp add: newAdjPair_eq Let_def)

lemma regStructures_split_relink [simp]:
  "m_regStructures (split_relink e e2 u a1 a2 i g) = m_regStructures g"
  by (simp add: split_relink_def updAdj_def updEdge_def updNode_def resetAdjEntryIndex_def
      fold_notify Let_def)

lemma regStructures_oneEdge: "m_regStructures oneEdge = []"
  by (simp add: oneEdge_def newEdge_def setEdgeOfPair_def twoNodes_def Let_def case_prod_beta
      updAdj_def)

lemma regStructures_split: "m_regStructures (fst (split e g)) = m_regStructures g"
  by (simp add: split_def Let_def case_prod_beta updNode_def)

lemma pathGraph_sel:
  "nodes pathGraph = [Suc 0, 2, 3]" "edges pathGraph = [Suc 0, 2]" "m_hiddenEdges pathGraph = []"
  "nextNode pathGraph = 4" "nextEdge pathGraph = 3" "nextAdj pathGraph = 5"
  "m_regStructures pathGraph = [5, 7]"
  "nodeMem pathGraph (Suc 0) = \<lparr> n_index = 0, m_indeg = 0, m_outdeg = 1, adjEdges = [Suc 0] \<rparr>"
  "nodeMem pathGraph 2 = \<lparr> n_index = 1, m_indeg = 1, m_outdeg = 0, adjEdges = [2] \<rparr>"
  "nodeMem pathGraph 3 = \<lparr> n_index = 2, m_indeg = 1, m_outdeg = 1, adjEdges = [3, 4] \<rparr>"
  "edgeMem pathGraph (Suc 0) = \<lparr> e_index = 0, m_src = Suc 0, m_tgt = 3, m_adjSrc = Suc 0, m_adjTgt = 3 \<rparr>"
  "edgeMem pathGraph 2 = \<lparr> e_index = 1, m_src = 3, m_tgt = 2, m_adjSrc = 4, m_adjTgt = 2 \<rparr>"
  "adjMem pathGraph (Suc 0) = \<lparr> m_twin = 3, m_edge = Suc 0, m_node = Suc 0, m_id = 0 \<rparr>"
  "adjMem pathGraph 2 = \<lparr> m_twin = 4, m_edge = 2, m_node = 2, m_id = 3 \<rparr>"
  "adjMem pathGraph 3 = \<lparr> m_twin = Suc 0, m_edge = Suc 0, m_node = 3, m_id = 1 \<rparr>"
  "adjMem pathGraph 4 = \<lparr> m_twin = 2, m_edge = 2, m_node = 3, m_id = 2 \<rparr>"
  by (simp_all add: pathGraph_def split_sel split_edgeMem split_adjMem oneEdge_sel oneEdge_edgeIdCount regStructures_split regStructures_oneEdge
      nodeIdCount_oneEdge shl1_def int32_def numeral_2_eq_2[symmetric] numeral_3_eq_3[symmetric])

lemma wf_pathGraph: "wf pathGraph"
  by (simp add: wf_def wfNode_def wfEdge_def wfEdgeCore_def wfHidden_def pathGraph_sel)

lemma unsplit_Inr:
  assumes "unsplit eIn eOut g = Inr h"
  shows "h = unsplit_merge eIn eOut g" "eIn \<noteq> eOut"
  using assms
  by (auto simp: unsplit_def Let_def isSelfLoop_def source_def target_def split: if_splits)

section \<open>The ids of the two adjacency entries of an edge\<close>

lemma idFrame_refl [simp]: "idFrame g g"
  by (simp add: idFrame_def)

lemma idFrame_trans: "idFrame g h \<Longrightarrow> idFrame h k \<Longrightarrow> idFrame g k"
  by (auto simp: idFrame_def)

lemma idFrame_ids:
  assumes "idFrame g g'"
  shows "idSrc g' e = idSrc g e" "idTgt g' e = idTgt g e"
    "idsOrdered g' e = idsOrdered g e" "idsPaired g' e = idsPaired g e"
  using assms by (simp_all add: idFrame_def idSrc_def idTgt_def idsOrdered_def idsPaired_def)

lemma idFrame_inv:
  assumes "idFrame g g'"
  shows "idInv g \<Longrightarrow> idInv g'" "idPairInv g \<Longrightarrow> idPairInv g'"
  using assms idFrame_ids(3,4)[OF assms]
  by (auto simp: idInv_def idPairInv_def list_all_iff idFrame_def)

lemma set_del_subset: "set (del x xs) \<subseteq> set xs"
  using set_remove1_subset[of x xs] by (simp add: del_def)

lemma idFrame_delEdge: "idFrame g (delEdge e g)"
  using set_del_subset[of e "edges g"] by (auto simp: idFrame_def allEdges_def)

lemma idFrame_hideEdge: "e \<in> set (edges g) \<Longrightarrow> idFrame g (hideEdge e g)"
  using set_del_subset[of e "edges g"] by (auto simp: idFrame_def allEdges_def pushBack_def)

lemma idFrame_restoreEdge: "e \<in> set (allEdges g) \<Longrightarrow> idFrame g (restoreEdge e g)"
  using set_del_subset[of e "m_hiddenEdges g"]
  by (auto simp: idFrame_def allEdges_def pushBack_def)

lemma idFrame_fold_restoreEdge:
  "set es \<subseteq> set (allEdges g) \<Longrightarrow> idFrame g (fold restoreEdge es g)"
proof (induction es arbitrary: g)
  case Nil
  then show ?case by simp
next
  case (Cons e es)
  have f: "idFrame g (restoreEdge e g)" using Cons.prems by (simp add: idFrame_restoreEdge)
  have "set (allEdges (restoreEdge e g)) = set (allEdges g)"
    using Cons.prems by (auto simp: allEdges_def pushBack_def del_def)
  with Cons.prems have "set es \<subseteq> set (allEdges (restoreEdge e g))" by simp
  from Cons.IH[OF this] f show ?case by (simp add: idFrame_trans)
qed

lemma idFrame_restoreAllEdges: "idFrame g (restoreAllEdges g)"
  by (simp add: restoreAllEdges_def idFrame_fold_restoreEdge allEdges_def)

lemma moveSource_idsel [simp]:
  "edges (moveSource e adj dir g) = edges g"
  "m_hiddenEdges (moveSource e adj dir g) = m_hiddenEdges g"
  "edgeMem (moveSource e adj dir g) = (edgeMem g)(e := (edgeMem g e)\<lparr> m_src := theNode g adj \<rparr>)"
  "adjMem (moveSource e adj dir g) = (adjMem g)(m_adjSrc (edgeMem g e) :=
      (adjMem g (m_adjSrc (edgeMem g e)))\<lparr> m_node := theNode g adj \<rparr>)"
  by (simp_all add: moveSource_def moveAdjList_def updNode_def updEdge_def updAdj_def theNode_def Let_def)

lemma moveTarget_idsel [simp]:
  "edges (moveTarget e adj dir g) = edges g"
  "m_hiddenEdges (moveTarget e adj dir g) = m_hiddenEdges g"
  "edgeMem (moveTarget e adj dir g) = (edgeMem g)(e := (edgeMem g e)\<lparr> m_tgt := theNode g adj \<rparr>)"
  "adjMem (moveTarget e adj dir g) = (adjMem g)(m_adjTgt (edgeMem g e) :=
      (adjMem g (m_adjTgt (edgeMem g e)))\<lparr> m_node := theNode g adj \<rparr>)"
  by (simp_all add: moveTarget_def moveAdjList_def updNode_def updEdge_def updAdj_def theNode_def Let_def)

lemma idFrame_moveSource: "idFrame g (moveSource e adj dir g)"
  by (simp add: idFrame_def allEdges_def)

lemma idFrame_moveTarget: "idFrame g (moveTarget e adj dir g)"
  by (simp add: idFrame_def allEdges_def)

lemma idFrame_delNode_loop:
  assumes "delNode_loop v g = Some g'"
  shows "idFrame g g'"
proof (rule delNode_loop.raw_induct[where P = "\<lambda>v g g'. idFrame g g'", OF _ assms])
  fix f v g y
  assume IH: "\<And>v g y. f v g = Some y \<Longrightarrow> idFrame g y"
    and step: "(case adjEdges (nodeMem g v) of [] \<Rightarrow> Some g
                | adj # x \<Rightarrow> f v (delEdge (m_edge (adjMem g adj)) g)) = Some y"
  from step show "idFrame g y"
    by (cases "adjEdges (nodeMem g v)")
      (auto dest!: IH intro: idFrame_trans[OF idFrame_delEdge])
qed

lemma idFrame_calls [simp]: "idFrame (g\<lparr> calls := c \<rparr>) h = idFrame g h"
  "idFrame h (g\<lparr> calls := c \<rparr>) = idFrame h g"
  "idFrame h (g\<lparr> nodes := ns \<rparr>) = idFrame h g"
  by (simp_all add: idFrame_def allEdges_def)

lemma idFrame_delNode: "delNode v g = Some g' \<Longrightarrow> idFrame g g'"
  by (auto simp: delNode_def Let_def fold_notify split: option.splits dest!: idFrame_delNode_loop)

lemma idFrame_contract_loop:
  assumes "contract_loop adjSrc adjTgt v w adj g = Some g'"
  shows "idFrame g g'"
proof (rule contract_loop.raw_induct[where P = "\<lambda>adjSrc adjTgt v w adj g g'. idFrame g g'",
        OF _ assms])
  fix f adjSrc adjTgt v w adj g y
  assume IH: "\<And>adjSrc adjTgt v w adj g y. f adjSrc adjTgt v w adj g = Some y \<Longrightarrow> idFrame g y"
    and step: "(if adj = adjTgt then Some g
      else if adj = nullptr then None
      else
        (let adjNext = cyclicSucc g adj in
         if twinNode g adj = v then f adjSrc adjTgt v w adjNext g
         else
           (let eAdj = theEdge g adj in
            if w = source g eAdj
            then f adjSrc adjTgt v w adjNext (moveSource eAdj adjSrc before g)
            else f adjSrc adjTgt v w adjNext (moveTarget eAdj adjSrc before g)))) = Some y"
  from step show "idFrame g y"
    by (auto simp: Let_def split: if_splits dest!: IH
        intro: idFrame_trans[OF idFrame_moveSource] idFrame_trans[OF idFrame_moveTarget])
qed

lemma idFrame_contract: "contract e g = Some (g', x) \<Longrightarrow> idFrame g g'"
  by (auto simp: contract_def Let_def split: option.splits
      dest!: idFrame_contract_loop idFrame_delNode intro: idFrame_trans)

lemma idFrame_newNode: "idFrame g (fst (newNode g))"
  by (simp add: idFrame_def allEdges_def)

lemma idFrame_newNode_index: "newNode_index i g = Some (g', v) \<Longrightarrow> idFrame g g'"
  by (auto simp: newNode_index_def allocNode_def linkNode_eq growNodeTable_eq Let_def idFrame_def
      allEdges_def split: if_splits option.splits)

lemma idFrame_register:
  "idFrame g (registerNodeArray a g)" "idFrame g (registerEdgeArray a g)"
  "idFrame g (registerAdjArray a g)" "idFrame g (registerStructure obs g)"
  by (simp_all add: idFrame_def allEdges_def registerNodeArray_def registerEdgeArray_def
      registerAdjArray_def registerStructure_def updArray_def Let_def)

lemma newEdge_index_sel:
  assumes "newEdge_index v w i g = Some (g', e)"
  shows "e = nextEdge g"
    "edges g' = edges g @ [nextEdge g]"
    "m_hiddenEdges g' = m_hiddenEdges g"
    "edgeMem g' = (edgeMem g)(nextEdge g :=
      \<lparr> e_index = i, m_src = v, m_tgt = w, m_adjSrc = nextAdj g, m_adjTgt = Suc (nextAdj g) \<rparr>)"
    "adjMem g' = (adjMem g)
      (nextAdj g := \<lparr> m_twin = Suc (nextAdj g), m_edge = nextEdge g, m_node = v, m_id = shl1 i \<rparr>,
       Suc (nextAdj g) := \<lparr> m_twin = nextAdj g, m_edge = nextEdge g, m_node = w,
                             m_id = shl1 i OR 1 \<rparr>)"
  using assms
  by (auto simp: newEdge_index_def newAdjPair_eq allocEdge_def linkEdge_eq growEdgeTable_eq
      setEdgeOfPair_def updAdj_def Let_def fun_upd_twist split: if_splits option.splits)

lemma wf_allEdgesD:
  assumes "wf g" "e \<in> set (allEdges g)"
  shows "wfEdgeCore g e"
  using assms by (auto simp: wf_def allEdges_def list_all_iff wfEdge_def wfHidden_def)

lemma inv_step:
  assumes "\<forall>e \<in> set (allEdges g').
      (e = x \<and> idsOrdered g' x)
      \<or> (e \<in> set (allEdges g) \<and> idSrc g' e = idSrc g e \<and> idTgt g' e = idTgt g e
           \<and> e_index (edgeMem g' e) = e_index (edgeMem g e))"
  shows "idInv g \<Longrightarrow> idInv g'" "idPairInv g \<Longrightarrow> idPairInv g'"
proof -
  have c: "idsOrdered g' e \<or> (e \<in> set (allEdges g) \<and> idsOrdered g' e = idsOrdered g e
              \<and> idsPaired g' e = idsPaired g e)"
    if "e \<in> set (allEdges g')" for e
  proof -
    from assms that have "(e = x \<and> idsOrdered g' x)
      \<or> (e \<in> set (allEdges g) \<and> idSrc g' e = idSrc g e \<and> idTgt g' e = idTgt g e
           \<and> e_index (edgeMem g' e) = e_index (edgeMem g e))" by blast
    then show ?thesis
    proof
      assume "e = x \<and> idsOrdered g' x"
      then show ?thesis by simp
    next
      assume "e \<in> set (allEdges g) \<and> idSrc g' e = idSrc g e \<and> idTgt g' e = idTgt g e
           \<and> e_index (edgeMem g' e) = e_index (edgeMem g e)"
      then show ?thesis by (simp add: idsOrdered_def idsPaired_def)
    qed
  qed
  show "idInv g \<Longrightarrow> idInv g'"
    using c by (auto simp: idInv_def list_all_iff)
  show "idPairInv g \<Longrightarrow> idPairInv g'"
    using c unfolding idPairInv_def list_all_iff by (meson idsPaired_def)
qed

lemma ids_newEdge:
  assumes "wf g"
  shows "idInv g \<Longrightarrow> idInv (fst (newEdge v w g))"
    "idPairInv g \<Longrightarrow> idPairInv (fst (newEdge v w g))"
    "idsOrdered (fst (newEdge v w g)) (snd (newEdge v w g))"
proof -
  let ?g' = "fst (newEdge v w g)"
  have new: "idsOrdered ?g' (nextEdge g)"
    by (simp add: idsOrdered_def idSrc_def idTgt_def newEdge_sel)
  have old: "e \<in> set (allEdges g) \<Longrightarrow> idSrc ?g' e = idSrc g e \<and> idTgt ?g' e = idTgt g e
           \<and> e_index (edgeMem ?g' e) = e_index (edgeMem g e)" for e
    using wf_allEdgesD[OF assms, of e]
    by (simp add: wfEdgeCore_def idSrc_def idTgt_def newEdge_sel)
  have st: "\<forall>e \<in> set (allEdges ?g').
      (e = nextEdge g \<and> idsOrdered ?g' (nextEdge g))
      \<or> (e \<in> set (allEdges g) \<and> idSrc ?g' e = idSrc g e \<and> idTgt ?g' e = idTgt g e
           \<and> e_index (edgeMem ?g' e) = e_index (edgeMem g e))"
    using new old by (auto simp: allEdges_def newEdge_sel)
  show "idInv g \<Longrightarrow> idInv ?g'" "idPairInv g \<Longrightarrow> idPairInv ?g'"
    using inv_step[OF st] by blast+
  show "idsOrdered ?g' (snd (newEdge v w g))" using new by (simp add: newEdge_sel)
qed

lemma ids_newEdge_index:
  assumes "wf g" "newEdge_index v w i g = Some (g', x)"
  shows "idInv g \<Longrightarrow> idInv g'" "idPairInv g \<Longrightarrow> idPairInv g'" "idsOrdered g' x"
    "e_index (edgeMem g' x) = i"
proof -
  note s = newEdge_index_sel[OF assms(2)]
  have new: "idsOrdered g' (nextEdge g)"
    by (simp add: idsOrdered_def idSrc_def idTgt_def s)
  have old: "e \<in> set (allEdges g) \<Longrightarrow> idSrc g' e = idSrc g e \<and> idTgt g' e = idTgt g e
           \<and> e_index (edgeMem g' e) = e_index (edgeMem g e)" for e
    using wf_allEdgesD[OF assms(1), of e]
    by (simp add: wfEdgeCore_def idSrc_def idTgt_def s)
  have st: "\<forall>e \<in> set (allEdges g').
      (e = nextEdge g \<and> idsOrdered g' (nextEdge g))
      \<or> (e \<in> set (allEdges g) \<and> idSrc g' e = idSrc g e \<and> idTgt g' e = idTgt g e
           \<and> e_index (edgeMem g' e) = e_index (edgeMem g e))"
    using new old by (auto simp: allEdges_def s)
  show "idInv g \<Longrightarrow> idInv g'" "idPairInv g \<Longrightarrow> idPairInv g'"
    using inv_step[OF st] by blast+
  show "idsOrdered g' x" using new by (simp add: s)
  show "e_index (edgeMem g' x) = i" by (simp add: s)
qed

lemma ids_reverseEdge:
  "idPairInv g \<Longrightarrow> idPairInv (reverseEdge e g)"
proof -
  have s: "edges (reverseEdge e g) = edges g" "m_hiddenEdges (reverseEdge e g) = m_hiddenEdges g"
    "adjMem (reverseEdge e g) = adjMem g"
    "edgeMem (reverseEdge e g) = (edgeMem g)(e := (edgeMem g e)
        \<lparr> m_src := m_tgt (edgeMem g e), m_tgt := m_src (edgeMem g e),
          m_adjSrc := m_adjTgt (edgeMem g e), m_adjTgt := m_adjSrc (edgeMem g e) \<rparr>)"
    by (simp_all add: reverseEdge_def updEdge_def updNode_def Let_def)
  show "idPairInv g \<Longrightarrow> idPairInv (reverseEdge e g)"
    by (auto simp: idPairInv_def list_all_iff idsPaired_def idsOrdered_def idSrc_def idTgt_def s
        allEdges_def)
qed

lemma shl1_even: "\<exists>k. shl1 x = 2 * k \<and> shl1 x OR 1 = 2 * k + 1"
proof -
  have "(2 * x + 2147483648) mod 4294967296 = 2 * ((x + 1073741824) mod 2147483648)"
    using mult_mod_right[of 2 "x + 1073741824" 2147483648] by simp
  then have "shl1 x = 2 * ((x + 1073741824) mod 2147483648 - 1073741824)"
    by (simp add: shl1_def int32_def)
  then obtain k where k: "shl1 x = 2 * k" by blast
  then have "shl1 x OR 1 = 2 * k + 1" by (simp add: or_one_eq)
  with k show ?thesis by blast
qed

lemma ids_split:
  assumes "wf g" "e \<in> set (edges g)"
  shows "idInv g \<Longrightarrow> idInv (fst (split e g))"
    "idPairInv g \<Longrightarrow> idPairInv (fst (split e g))"
    "idsOrdered (fst (split e g)) (snd (split e g))"
proof -
  let ?g' = "fst (split e g)"
  note c = wf_edgeD(2)[OF assms, unfolded wfEdgeCore_def]
  from c have b: "e < nextEdge g" "m_adjSrc (edgeMem g e) < nextAdj g"
    "m_adjTgt (edgeMem g e) < nextAdj g" "m_adjSrc (edgeMem g e) \<noteq> m_adjTgt (edgeMem g e)"
    by simp_all
  note em = split_edgeMem[OF b(1)]
  note am = split_adjMem[OF b]
  have new: "idsOrdered ?g' (nextEdge g)"
    using b by (simp add: idsOrdered_def idSrc_def idTgt_def em am)
  have same: "idSrc ?g' e = idSrc g e \<and> idTgt ?g' e = idTgt g e
           \<and> e_index (edgeMem ?g' e) = e_index (edgeMem g e)"
    using b by (simp add: idSrc_def idTgt_def em am)
  have old: "idSrc ?g' e' = idSrc g e' \<and> idTgt ?g' e' = idTgt g e'
           \<and> e_index (edgeMem ?g' e') = e_index (edgeMem g e')"
    if "e' \<in> set (allEdges g)" "e' \<noteq> e" for e'
  proof -
    note c' = wf_allEdgesD[OF assms(1) that(1), unfolded wfEdgeCore_def]
    from c c' that(2) have d: "m_adjSrc (edgeMem g e') \<noteq> m_adjSrc (edgeMem g e)"
      "m_adjSrc (edgeMem g e') \<noteq> m_adjTgt (edgeMem g e)"
      "m_adjTgt (edgeMem g e') \<noteq> m_adjSrc (edgeMem g e)"
      "m_adjTgt (edgeMem g e') \<noteq> m_adjTgt (edgeMem g e)"
      by auto
    from c' have b': "e' < nextEdge g" "m_adjSrc (edgeMem g e') < nextAdj g"
      "m_adjTgt (edgeMem g e') < nextAdj g" by simp_all
    show ?thesis using b' d that(2) by (simp add: idSrc_def idTgt_def em am)
  qed
  have st: "\<forall>e' \<in> set (allEdges ?g').
      (e' = nextEdge g \<and> idsOrdered ?g' (nextEdge g))
      \<or> (e' \<in> set (allEdges g) \<and> idSrc ?g' e' = idSrc g e' \<and> idTgt ?g' e' = idTgt g e'
           \<and> e_index (edgeMem ?g' e') = e_index (edgeMem g e'))"
  proof
    fix e' assume "e' \<in> set (allEdges ?g')"
    then have "e' = nextEdge g \<or> e' \<in> set (allEdges g)"
      by (auto simp: allEdges_def split_sel)
    then show "(e' = nextEdge g \<and> idsOrdered ?g' (nextEdge g))
      \<or> (e' \<in> set (allEdges g) \<and> idSrc ?g' e' = idSrc g e' \<and> idTgt ?g' e' = idTgt g e'
           \<and> e_index (edgeMem ?g' e') = e_index (edgeMem g e'))"
      using new same old[of e'] by (cases "e' = e") blast+
  qed
  show "idInv g \<Longrightarrow> idInv ?g'" "idPairInv g \<Longrightarrow> idPairInv ?g'"
    using inv_step[OF st] by blast+
  show "idsOrdered ?g' (snd (split e g))" using new by (simp add: split_sel)
qed

lemma ids_unsplit_merge:
  assumes "wf g" "eIn \<in> set (edges g)" "eOut \<in> set (edges g)" "eIn \<noteq> eOut"
  shows "idInv g \<Longrightarrow> idInv (unsplit_merge eIn eOut g)"
    "idPairInv g \<Longrightarrow> idPairInv (unsplit_merge eIn eOut g)"
proof -
  let ?g' = "unsplit_merge eIn eOut g"
  note ci = wf_edgeD(2)[OF assms(1,2), unfolded wfEdgeCore_def]
  note co = wf_edgeD(2)[OF assms(1,3), unfolded wfEdgeCore_def]
  from ci co assms(4) have d0: "m_adjSrc (edgeMem g eIn) \<noteq> m_adjTgt (edgeMem g eOut)"
    "m_adjTgt (edgeMem g eIn) \<noteq> m_adjTgt (edgeMem g eOut)"
    by auto
  have same: "idSrc ?g' eIn = idSrc g eIn \<and> idTgt ?g' eIn = idTgt g eIn
           \<and> e_index (edgeMem ?g' eIn) = e_index (edgeMem g eIn)"
    using d0 by (simp add: idSrc_def idTgt_def Let_def)
  have old: "idSrc ?g' e' = idSrc g e' \<and> idTgt ?g' e' = idTgt g e'
           \<and> e_index (edgeMem ?g' e') = e_index (edgeMem g e')"
    if "e' \<in> set (allEdges g)" "e' \<noteq> eIn" "e' \<noteq> eOut" for e'
  proof -
    note c' = wf_allEdgesD[OF assms(1) that(1), unfolded wfEdgeCore_def]
    from co c' that(3) have d: "m_adjSrc (edgeMem g e') \<noteq> m_adjTgt (edgeMem g eOut)"
      "m_adjTgt (edgeMem g e') \<noteq> m_adjTgt (edgeMem g eOut)"
      by auto
    show ?thesis using d that(2) by (simp add: idSrc_def idTgt_def Let_def)
  qed
  have dist: "distinct (allEdges g)" using assms(1) by (simp add: wf_def allEdges_def)
  have sub: "e' \<in> set (allEdges g) \<and> e' \<noteq> eOut" if "e' \<in> set (allEdges ?g')" for e'
    using that dist assms(3) by (auto simp: allEdges_def del_def)
  have st: "\<forall>e' \<in> set (allEdges ?g').
      (e' = eIn \<and> idsOrdered ?g' eIn)
      \<or> (e' \<in> set (allEdges g) \<and> idSrc ?g' e' = idSrc g e' \<and> idTgt ?g' e' = idTgt g e'
           \<and> e_index (edgeMem ?g' e') = e_index (edgeMem g e'))"
  proof
    fix e' assume "e' \<in> set (allEdges ?g')"
    from sub[OF this] show "(e' = eIn \<and> idsOrdered ?g' eIn)
      \<or> (e' \<in> set (allEdges g) \<and> idSrc ?g' e' = idSrc g e' \<and> idTgt ?g' e' = idTgt g e'
           \<and> e_index (edgeMem ?g' e') = e_index (edgeMem g e'))"
      using same old[of e'] by (cases "e' = eIn") blast+
  qed
  show "idInv g \<Longrightarrow> idInv ?g'" "idPairInv g \<Longrightarrow> idPairInv ?g'"
    using inv_step[OF st] by blast+
qed

lemma idInv_pair: "idInv g \<Longrightarrow> idPairInv g"
  by (auto simp: idInv_def idPairInv_def idsPaired_def list_all_iff)

lemma ids_runOp:
  assumes "wf g" "opValid g op" "runOp op g = Some g'"
  shows "(idPairInv g \<longrightarrow> idPairInv g') \<and> (idInv g \<and> \<not> isReverseEdge op \<longrightarrow> idInv g')"
proof (cases op)
  case NewNode
  with assms(3) idFrame_inv[OF idFrame_newNode[of g]] show ?thesis by auto
next
  case (NewNodeIndex i)
  with assms(3) obtain v where "newNode_index i g = Some (g', v)" by auto
  from idFrame_inv[OF idFrame_newNode_index[OF this]] show ?thesis by blast
next
  case (NewEdge v w)
  with assms(3) ids_newEdge(1,2)[OF assms(1), of v w] show ?thesis by auto
next
  case (NewEdgeIndex v w i)
  with assms(3) obtain x where "newEdge_index v w i g = Some (g', x)" by auto
  from ids_newEdge_index(1,2)[OF assms(1) this] show ?thesis by blast
next
  case (DelNode v)
  with assms(3) have "delNode v g = Some g'" by simp
  from idFrame_inv[OF idFrame_delNode[OF this]] show ?thesis by blast
next
  case (DelEdge e)
  with assms(3) idFrame_inv[OF idFrame_delEdge[of g e]] show ?thesis by auto
next
  case (Split e)
  with assms(2,3) ids_split(1,2)[OF assms(1), of e] show ?thesis by auto
next
  case (Unsplit eIn eOut)
  with assms(3) have u: "unsplit eIn eOut g = Inr g'" by (simp split: sum.splits)
  note i = unsplit_Inr[OF u]
  from Unsplit assms(2) have m: "eIn \<in> set (edges g)" "eOut \<in> set (edges g)" by simp_all
  from ids_unsplit_merge[OF assms(1) m i(2)] i(1) show ?thesis by blast
next
  case (ReverseEdge e)
  with assms(3) ids_reverseEdge[of g e] show ?thesis by auto
next
  case (HideEdge e)
  with assms(2,3) idFrame_inv[OF idFrame_hideEdge[of e g]] show ?thesis by auto
next
  case (RestoreEdge e)
  with assms(2) have "e \<in> set (allEdges g)" by (simp add: allEdges_def)
  with RestoreEdge assms(3) idFrame_inv[OF idFrame_restoreEdge[of e g]] show ?thesis by auto
next
  case RestoreAllEdges
  with assms(3) idFrame_inv[OF idFrame_restoreAllEdges[of g]] show ?thesis by auto
next
  case (MoveSource e adj dir)
  with assms(3) idFrame_inv[OF idFrame_moveSource[of g e adj dir]] show ?thesis by auto
next
  case (MoveTarget e adj dir)
  with assms(3) idFrame_inv[OF idFrame_moveTarget[of g e adj dir]] show ?thesis by auto
next
  case (Contract e)
  with assms(3) obtain x where "contract e g = Some (g', x)" by auto
  from idFrame_inv[OF idFrame_contract[OF this]] show ?thesis by blast
next
  case (RegisterNodeArray a)
  with assms(3) idFrame_inv[OF idFrame_register(1)[of g a]] show ?thesis by auto
next
  case (RegisterEdgeArray a)
  with assms(3) idFrame_inv[OF idFrame_register(2)[of g a]] show ?thesis by auto
next
  case (RegisterAdjArray a)
  with assms(3) idFrame_inv[OF idFrame_register(3)[of g a]] show ?thesis by auto
next
  case (RegisterStructure obs)
  with assms(3) idFrame_inv[OF idFrame_register(4)[of g obs]] show ?thesis by auto
qed

lemma idsPaired_bits:
  assumes "idsPaired g e"
  shows "idSrc g e div 2 = idTgt g e div 2" "idSrc g e \<noteq> idTgt g e"
proof -
  from shl1_even[of "e_index (edgeMem g e)"] obtain k where
    k: "shl1 (e_index (edgeMem g e)) = 2 * k" "shl1 (e_index (edgeMem g e)) OR 1 = 2 * k + 1"
    by blast
  from assms have "(idSrc g e = 2 * k \<and> idTgt g e = 2 * k + 1)
      \<or> (idSrc g e = 2 * k + 1 \<and> idTgt g e = 2 * k)"
    using k by (auto simp: idsPaired_def idsOrdered_def)
  then show "idSrc g e div 2 = idTgt g e div 2" "idSrc g e \<noteq> idTgt g e" by auto
qed

lemma idsOrdered_even:
  assumes "idsOrdered g e"
  shows "\<exists>k. idSrc g e = 2 * k \<and> idTgt g e = 2 * k + 1"
  using assms shl1_even[of "e_index (edgeMem g e)"] by (auto simp: idsOrdered_def)

lemma idInv_oneEdge: "idInv oneEdge"
  by (simp add: idInv_def allEdges_def idsOrdered_def idSrc_def idTgt_def oneEdge_sel shl1_def int32_def)

lemma edgeTable_oneEdge: "m_edgeArrayTableSize oneEdge = 16"
  using newEdge_tables[of 1 2 twoNodes] createEdgeElement_tables[of 1 2 _ _ twoNodes]
  by (simp add: oneEdge_def tables_def twoNodes_counts split: if_splits)

text \<open>
  Claim C5. On a well-formed graph, every edit operation that returns keeps the pairing
  of the ids: if the two adjacency entries of every edge (hidden ones included) carry the
  ids \<open>index << 1\<close> and \<open>(index << 1) | 1\<close>, on either side, they do so afterwards; then
  the two ids of an edge differ and agree after halving, so they differ in the lowest bit
  only. Every operation other than \<open>reverseEdge\<close> also keeps the orientation: if the
  source side carries the even id \<open>2k\<close> and the target side \<open>2k + 1\<close> for every edge,
  it is so afterwards. The empty graph has the property, and the edge made by
  \<open>newEdge\<close>, by \<open>newEdge\<close> with an explicit index, and by \<open>split\<close> has the even id on
  its source side and the odd id on its target side.
\<close>

theorem adjacency_id_pairs:
  assumes "wf g" "opValid g op" "runOp op g = Some g'"
  shows "(idPairInv g \<longrightarrow> idPairInv g')
    \<and> (idInv g \<and> \<not> isReverseEdge op \<longrightarrow> idInv g')
    \<and> (idPairInv g' \<longrightarrow>
         (\<forall>e \<in> set (allEdges g'). idSrc g' e div 2 = idTgt g' e div 2 \<and> idSrc g' e \<noteq> idTgt g' e))
    \<and> (idInv g' \<longrightarrow>
         (\<forall>e \<in> set (allEdges g'). \<exists>k. idSrc g' e = 2 * k \<and> idTgt g' e = 2 * k + 1))
    \<and> idInv emptyGraph
    \<and> idsOrdered (fst (newEdge v w g)) (snd (newEdge v w g))
    \<and> (newEdge_index v w i g = Some (h, x) \<longrightarrow> idsOrdered h x \<and> e_index (edgeMem h x) = i)
    \<and> (e \<in> set (edges g) \<longrightarrow> idsOrdered (fst (split e g)) (snd (split e g)))"
proof (intro conjI)
  from ids_runOp[OF assms]
  show "idPairInv g \<longrightarrow> idPairInv g'" "idInv g \<and> \<not> isReverseEdge op \<longrightarrow> idInv g'"
    by blast+
  show "idPairInv g' \<longrightarrow>
         (\<forall>e \<in> set (allEdges g'). idSrc g' e div 2 = idTgt g' e div 2 \<and> idSrc g' e \<noteq> idTgt g' e)"
    using idsPaired_bits[of g'] by (auto simp: idPairInv_def list_all_iff)
  show "idInv g' \<longrightarrow>
         (\<forall>e \<in> set (allEdges g'). \<exists>k. idSrc g' e = 2 * k \<and> idTgt g' e = 2 * k + 1)"
    using idsOrdered_even[of g'] by (auto simp: idInv_def list_all_iff)
  show "idInv emptyGraph" by (simp add: idInv_def allEdges_def)
  show "idsOrdered (fst (newEdge v w g)) (snd (newEdge v w g))"
    using assms(1) by (rule ids_newEdge(3))
  show "newEdge_index v w i g = Some (h, x) \<longrightarrow> idsOrdered h x \<and> e_index (edgeMem h x) = i"
    using ids_newEdge_index(3,4)[OF assms(1)] by blast
  show "e \<in> set (edges g) \<longrightarrow> idsOrdered (fst (split e g)) (snd (split e g))"
    using ids_split(3)[OF assms(1)] by blast
qed

theorem adjacency_id_pairs_witness:
  "wf oneEdge \<and> opValid oneEdge (Split (Suc 0))
   \<and> runOp (Split (Suc 0)) oneEdge = Some (fst (split (Suc 0) oneEdge))
   \<and> idInv oneEdge \<and> idInv (fst (split (Suc 0) oneEdge))
   \<and> idPairInv (fst (split (Suc 0) oneEdge))
   \<and> (\<exists>k. idSrc (fst (split (Suc 0) oneEdge)) 2 = 2 * k \<and> idTgt (fst (split (Suc 0) oneEdge)) 2 = 2 * k + 1)
   \<and> idsOrdered (fst (split (Suc 0) oneEdge)) 2
   \<and> (\<exists>h x. newEdge_index (Suc 0) 2 5 oneEdge = Some (h, x) \<and> idsOrdered h x
         \<and> e_index (edgeMem h x) = 5)"
proof -
  have a: "opValid oneEdge (Split (Suc 0))" "Suc 0 \<in> set (edges oneEdge)"
    "runOp (Split (Suc 0)) oneEdge = Some (fst (split (Suc 0) oneEdge))"
    by (simp_all add: oneEdge_sel)
  from newEdge_index_props[of oneEdge 5 "Suc 0" 2] obtain h x where
    n: "newEdge_index (Suc 0) 2 5 oneEdge = Some (h, x)"
    by (auto simp: edgeTable_oneEdge oneEdge_edgeIdCount)
  note t = adjacency_id_pairs[OF wf_oneEdge a(1,3), of "Suc 0" 2 5 h x "Suc 0"]
  have m: "2 \<in> set (allEdges (fst (split (Suc 0) oneEdge)))"
    by (simp add: allEdges_def split_sel oneEdge_sel)
  from t idInv_oneEdge have i: "idInv (fst (split (Suc 0) oneEdge))"
    "idPairInv (fst (split (Suc 0) oneEdge))"
    by (simp_all add: idInv_pair)
  from t i(1) m have k: "\<exists>k. idSrc (fst (split (Suc 0) oneEdge)) 2 = 2 * k
      \<and> idTgt (fst (split (Suc 0) oneEdge)) 2 = 2 * k + 1" by blast
  from t a(2) have o: "idsOrdered (fst (split (Suc 0) oneEdge)) 2"
    by (simp add: split_sel oneEdge_sel)
  from t n have "idsOrdered h x \<and> e_index (edgeMem h x) = 5" by blast
  with n have "\<exists>h x. newEdge_index (Suc 0) 2 5 oneEdge = Some (h, x) \<and> idsOrdered h x
         \<and> e_index (edgeMem h x) = 5" by blast
  with wf_oneEdge a idInv_oneEdge i k o show ?thesis by blast
qed

text \<open>
  \<open>reverseEdge\<close> swaps the two adjacency entries of the edge and leaves their ids: on the
  graph with the single edge \<open>1 \<rightarrow> 2\<close>, the source side of the reversed edge carries the
  odd id 1 and the target side the even id 0.
\<close>

theorem reverseEdge_odd_source_id:
  "wf oneEdge \<and> idInv oneEdge
   \<and> runOp (ReverseEdge (Suc 0)) oneEdge = Some (reverseEdge (Suc 0) oneEdge)
   \<and> edges (reverseEdge (Suc 0) oneEdge) = [Suc 0]
   \<and> idSrc (reverseEdge (Suc 0) oneEdge) (Suc 0) = 1
   \<and> idTgt (reverseEdge (Suc 0) oneEdge) (Suc 0) = 0
   \<and> \<not> idInv (reverseEdge (Suc 0) oneEdge)"
proof -
  have s: "edges (reverseEdge (Suc 0) oneEdge) = [Suc 0]"
    "m_hiddenEdges (reverseEdge (Suc 0) oneEdge) = []"
    "adjMem (reverseEdge (Suc 0) oneEdge) = adjMem oneEdge"
    "edgeMem (reverseEdge (Suc 0) oneEdge) (Suc 0) =
       \<lparr> e_index = 0, m_src = 2, m_tgt = Suc 0, m_adjSrc = 2, m_adjTgt = Suc 0 \<rparr>"
    by (simp_all add: reverseEdge_def updEdge_def updNode_def Let_def oneEdge_sel)
  show ?thesis
    by (simp add: wf_oneEdge idInv_oneEdge s idSrc_def idTgt_def idInv_def idsOrdered_def
        allEdges_def oneEdge_sel shl1_def int32_def)
qed

section \<open>Contracting an edge\<close>

lemma moveSource_sel2 [simp]:
  "nodes (moveSource e adj dir g) = nodes g"
  "nextNode (moveSource e adj dir g) = nextNode g"
  "nextEdge (moveSource e adj dir g) = nextEdge g"
  "nextAdj (moveSource e adj dir g) = nextAdj g"
  by (simp_all add: moveSource_def moveAdjList_def updNode_def updEdge_def updAdj_def Let_def)

lemma moveTarget_sel2 [simp]:
  "nodes (moveTarget e adj dir g) = nodes g"
  "nextNode (moveTarget e adj dir g) = nextNode g"
  "nextEdge (moveTarget e adj dir g) = nextEdge g"
  "nextAdj (moveTarget e adj dir g) = nextAdj g"
  by (simp_all add: moveTarget_def moveAdjList_def updNode_def updEdge_def updAdj_def Let_def)

lemma moveSource_nodeMem:
  assumes "m_src (edgeMem g e) \<noteq> theNode g adj"
  shows "nodeMem (moveSource e adj before g) = (nodeMem g)
     (m_src (edgeMem g e) := (nodeMem g (m_src (edgeMem g e)))
        \<lparr> adjEdges := del (m_adjSrc (edgeMem g e)) (adjEdges (nodeMem g (m_src (edgeMem g e)))),
          m_outdeg := m_outdeg (nodeMem g (m_src (edgeMem g e))) - 1 \<rparr>,
      theNode g adj := (nodeMem g (theNode g adj))
        \<lparr> adjEdges := insertBefore (m_adjSrc (edgeMem g e)) adj (adjEdges (nodeMem g (theNode g adj))),
          m_outdeg := m_outdeg (nodeMem g (theNode g adj)) + 1 \<rparr>)"
  using assms
  by (simp add: moveSource_def moveAdjList_def updNode_def updEdge_def updAdj_def Let_def
      insertAt_def theNode_def fun_upd_twist)

lemma moveTarget_nodeMem:
  assumes "m_tgt (edgeMem g e) \<noteq> theNode g adj"
  shows "nodeMem (moveTarget e adj before g) = (nodeMem g)
     (m_tgt (edgeMem g e) := (nodeMem g (m_tgt (edgeMem g e)))
        \<lparr> adjEdges := del (m_adjTgt (edgeMem g e)) (adjEdges (nodeMem g (m_tgt (edgeMem g e)))),
          m_indeg := m_indeg (nodeMem g (m_tgt (edgeMem g e))) - 1 \<rparr>,
      theNode g adj := (nodeMem g (theNode g adj))
        \<lparr> adjEdges := insertBefore (m_adjTgt (edgeMem g e)) adj (adjEdges (nodeMem g (theNode g adj))),
          m_indeg := m_indeg (nodeMem g (theNode g adj)) + 1 \<rparr>)"
  using assms
  by (simp add: moveTarget_def moveAdjList_def updNode_def updEdge_def updAdj_def Let_def
      insertAt_def theNode_def fun_upd_twist)

lemma set_insertBefore [simp]: "set (insertBefore x y xs) = insert x (set xs)"
  by (induction xs) auto

lemma distinct_insertBefore: "distinct xs \<Longrightarrow> x \<notin> set xs \<Longrightarrow> distinct (insertBefore x y xs)"
  by (induction xs) auto

lemma length_filter_insertBefore:
  "length (filter P (insertBefore x y xs)) = length (filter P xs) + (if P x then 1 else 0)"
  by (induction xs) auto

lemma wfNode_alt:
  "wfNode g v \<longleftrightarrow>
     0 < v \<and> v < nextNode g \<and> distinct (adjEdges (nodeMem g v))
     \<and> (\<forall>a \<in> set (adjEdges (nodeMem g v)).
           0 < a \<and> a < nextAdj g \<and> m_node (adjMem g a) = v
           \<and> m_edge (adjMem g a) \<in> set (edges g)
           \<and> (isSrcEntry g a \<or> m_adjTgt (edgeMem g (m_edge (adjMem g a))) = a))
     \<and> m_indeg (nodeMem g v) = int (length (filter (\<lambda>a. \<not> isSrcEntry g a) (adjEdges (nodeMem g v))))
     \<and> m_outdeg (nodeMem g v) = int (length (filter (isSrcEntry g) (adjEdges (nodeMem g v))))"
  by (simp add: wfNode_def isSrcEntry_def[abs_def])

lemma wf_moveSource_nodes:
  assumes w: "wf g" and x: "x \<in> set (edges g)"
    and pos: "pos \<in> set (adjEdges (nodeMem g (theNode g pos)))" "theNode g pos \<in> set (nodes g)"
    and ne: "m_src (edgeMem g x) \<noteq> theNode g pos"
    and u: "u \<in> set (nodes g)"
  shows "wfNode (moveSource x pos before g) u"
proof -
  let ?g' = "moveSource x pos before g"
  let ?s = "m_adjSrc (edgeMem g x)" and ?old = "m_src (edgeMem g x)" and ?v = "theNode g pos"
  note cx = wf_edgeD(1)[OF w x, unfolded wfEdge_def wfEdgeCore_def]
  note nm = moveSource_nodeMem[OF ne]
  have old_n: "?old \<in> set (nodes g)" using cx by simp
  note n_u = wf_nodeD(1)[OF w u, unfolded wfNode_alt]
  have s_old: "?s \<in> set (adjEdges (nodeMem g ?old))" using cx by simp
  have s_node: "m_node (adjMem g ?s) = ?old" "m_edge (adjMem g ?s) = x" using cx by simp_all
  have s_src: "isSrcEntry g ?s" using s_node by (simp add: isSrcEntry_def)
  have isSrc: "isSrcEntry ?g' = isSrcEntry g" by (simp add: isSrcEntry_def fun_eq_iff)
  have e_same: "m_edge (adjMem ?g' b) = m_edge (adjMem g b)"
    "m_adjTgt (edgeMem ?g' y) = m_adjTgt (edgeMem g y)"
    "nextAdj ?g' = nextAdj g" "nextNode ?g' = nextNode g" "edges ?g' = edges g" for b y
    by simp_all
  have node_s: "m_node (adjMem ?g' ?s) = ?v" by simp
  have node_o: "b \<noteq> ?s \<Longrightarrow> m_node (adjMem ?g' b) = m_node (adjMem g b)" for b by simp
  consider (old) "u = ?old" | (v) "u = ?v" | (other) "u \<noteq> ?old" "u \<noteq> ?v" by blast
  then show ?thesis
  proof cases
    case old
    have r: "adjEdges (nodeMem ?g' u) = remove1 ?s (adjEdges (nodeMem g u))"
      "m_outdeg (nodeMem ?g' u) = m_outdeg (nodeMem g u) - 1"
      "m_indeg (nodeMem ?g' u) = m_indeg (nodeMem g u)"
      using ne old by (simp_all add: nm del_def)
    have su: "?s \<in> set (adjEdges (nodeMem g u))" using s_old old by simp
    have d: "distinct (remove1 ?s (adjEdges (nodeMem g u)))" using n_u by simp
    have m: "set (remove1 ?s (adjEdges (nodeMem g u))) = set (adjEdges (nodeMem g u)) - {?s}"
      using n_u by simp
    have o: "int (length (filter (isSrcEntry g) (remove1 ?s (adjEdges (nodeMem g u)))))
               = m_outdeg (nodeMem g u) - 1"
      using length_filter_remove1[OF su, of "isSrcEntry g"] n_u s_src by simp
    have i: "int (length (filter (\<lambda>b. \<not> isSrcEntry g b) (remove1 ?s (adjEdges (nodeMem g u)))))
               = m_indeg (nodeMem g u)"
      using length_filter_remove1[OF su, of "\<lambda>b. \<not> isSrcEntry g b"] n_u s_src by simp
    have en: "0 < b \<and> b < nextAdj g \<and> m_node (adjMem ?g' b) = u
           \<and> m_edge (adjMem g b) \<in> set (edges g)
           \<and> (isSrcEntry g b \<or> m_adjTgt (edgeMem g (m_edge (adjMem g b))) = b)"
      if "b \<in> set (adjEdges (nodeMem g u)) - {?s}" for b
      using that n_u node_o[of b] by simp
    show ?thesis
      unfolding wfNode_alt r isSrc e_same m o i
      using n_u d en by blast
  next
    case v
    have r: "adjEdges (nodeMem ?g' u) = insertBefore ?s pos (adjEdges (nodeMem g u))"
      "m_outdeg (nodeMem ?g' u) = m_outdeg (nodeMem g u) + 1"
      "m_indeg (nodeMem ?g' u) = m_indeg (nodeMem g u)"
      using ne v by (simp_all add: nm)
    have s_v: "?s \<notin> set (adjEdges (nodeMem g u))"
      using n_u s_node(1) ne v by auto
    have d: "distinct (insertBefore ?s pos (adjEdges (nodeMem g u)))"
      using n_u s_v by (simp add: distinct_insertBefore)
    have o: "int (length (filter (isSrcEntry g) (insertBefore ?s pos (adjEdges (nodeMem g u)))))
               = m_outdeg (nodeMem g u) + 1"
      using n_u s_src by (simp add: length_filter_insertBefore)
    have i: "int (length (filter (\<lambda>b. \<not> isSrcEntry g b) (insertBefore ?s pos (adjEdges (nodeMem g u)))))
               = m_indeg (nodeMem g u)"
      using n_u s_src by (simp add: length_filter_insertBefore)
    have en: "0 < b \<and> b < nextAdj g \<and> m_node (adjMem ?g' b) = u
           \<and> m_edge (adjMem g b) \<in> set (edges g)
           \<and> (isSrcEntry g b \<or> m_adjTgt (edgeMem g (m_edge (adjMem g b))) = b)"
      if "b \<in> insert ?s (set (adjEdges (nodeMem g u)))" for b
    proof (cases "b = ?s")
      case True
      then show ?thesis using cx x s_src node_s v by simp
    next
      case False
      with that have "b \<in> set (adjEdges (nodeMem g u))" by simp
      with n_u False node_o[of b] show ?thesis by simp
    qed
    show ?thesis
      unfolding wfNode_alt r isSrc e_same set_insertBefore o i
      using n_u d en by blast
  next
    case other
    have r: "nodeMem ?g' u = nodeMem g u" using other by (simp add: nm)
    have en: "m_node (adjMem ?g' b) = u" if "b \<in> set (adjEdges (nodeMem g u))" for b
    proof -
      from that n_u have "m_node (adjMem g b) = u" by simp
      with other(1) s_node(1) have "b \<noteq> ?s" by auto
      with node_o[of b] \<open>m_node (adjMem g b) = u\<close> show ?thesis by simp
    qed
    show ?thesis
      unfolding wfNode_alt r isSrc e_same
      using n_u en by blast
  qed
qed

lemma wf_hiddenD:
  assumes "wf g" "e \<in> set (m_hiddenEdges g)"
  shows "wfHidden g e" "wfEdgeCore g e" "e \<notin> set (edges g)"
  using assms by (auto simp: wf_def list_all_iff wfHidden_def)

lemma wf_moveSource_edges:
  assumes w: "wf g" and x: "x \<in> set (edges g)"
    and pos: "pos \<in> set (adjEdges (nodeMem g (theNode g pos)))" "theNode g pos \<in> set (nodes g)"
    and ne: "m_src (edgeMem g x) \<noteq> theNode g pos"
  shows "y \<in> set (edges g) \<Longrightarrow> wfEdge (moveSource x pos before g) y"
    and "y \<in> set (m_hiddenEdges g) \<Longrightarrow> wfHidden (moveSource x pos before g) y"
proof -
  let ?g' = "moveSource x pos before g"
  let ?s = "m_adjSrc (edgeMem g x)" and ?old = "m_src (edgeMem g x)" and ?v = "theNode g pos"
  note cx = wf_edgeD(1)[OF w x, unfolded wfEdge_def wfEdgeCore_def]
  note nm = moveSource_nodeMem[OF ne]
  have rot: "set (adjEdges (nodeMem ?g' u)) =
      (if u = ?v then insert ?s (set (adjEdges (nodeMem g u)))
       else if u = ?old then set (adjEdges (nodeMem g u)) - {?s}
       else set (adjEdges (nodeMem g u)))" for u
  proof -
    have "distinct (adjEdges (nodeMem g ?old))"
      using wf_nodeD(1)[OF w, of ?old] cx by (simp add: wfNode_def)
    then show ?thesis using ne by (simp add: nm del_def)
  qed
  have core: "wfEdgeCore ?g' y" if c: "wfEdgeCore g y" and d: "y \<noteq> x" for y
  proof -
    from c d cx have "m_adjSrc (edgeMem g y) \<noteq> ?s" "m_adjTgt (edgeMem g y) \<noteq> ?s"
      by (auto simp: wfEdgeCore_def)
    with c d show ?thesis by (simp add: wfEdgeCore_def)
  qed
  have corex: "wfEdgeCore ?g' x"
    using cx pos(2) by (simp add: wfEdgeCore_def)
  {
    assume y: "y \<in> set (edges g)"
    note cy = wf_edgeD(1)[OF w y, unfolded wfEdge_def wfEdgeCore_def]
    show "wfEdge ?g' y"
    proof (cases "y = x")
      case True
      have "m_adjTgt (edgeMem g x) \<in> set (adjEdges (nodeMem ?g' (m_tgt (edgeMem g x))))"
        unfolding rot using cx by auto
      then show ?thesis
        using True corex by (simp add: wfEdge_def rot)
    next
      case False
      from cy cx False have n: "m_adjSrc (edgeMem g y) \<noteq> ?s" "m_adjTgt (edgeMem g y) \<noteq> ?s"
        by auto
      have "m_adjSrc (edgeMem g y) \<in> set (adjEdges (nodeMem ?g' (m_src (edgeMem g y))))"
        "m_adjTgt (edgeMem g y) \<in> set (adjEdges (nodeMem ?g' (m_tgt (edgeMem g y))))"
        unfolding rot using cy n by auto
      then show ?thesis
        using False core[of y] wf_edgeD(2)[OF w y] by (simp add: wfEdge_def)
    qed
  }
  {
    assume y: "y \<in> set (m_hiddenEdges g)"
    note hy = wf_hiddenD[OF w y]
    from hy(3) x have d: "y \<noteq> x" by auto
    note cy = hy(1)[unfolded wfHidden_def wfEdgeCore_def]
    from cy cx d have n: "m_adjSrc (edgeMem g y) \<noteq> ?s" "m_adjTgt (edgeMem g y) \<noteq> ?s"
      by auto
    have "m_adjSrc (edgeMem g y) \<notin> set (adjEdges (nodeMem ?g' (m_src (edgeMem g y))))"
      "m_adjTgt (edgeMem g y) \<notin> set (adjEdges (nodeMem ?g' (m_tgt (edgeMem g y))))"
      unfolding rot using cy n by auto
    then show "wfHidden ?g' y"
      using d core[OF hy(2) d] by (simp add: wfHidden_def)
  }
qed

lemma wf_moveSource:
  assumes w: "wf g" and x: "x \<in> set (edges g)"
    and pos: "pos \<in> set (adjEdges (nodeMem g (theNode g pos)))" "theNode g pos \<in> set (nodes g)"
    and ne: "m_src (edgeMem g x) \<noteq> theNode g pos"
  shows "wf (moveSource x pos before g)"
proof -
  have b: "0 < nextNode g" "0 < nextEdge g" "0 < nextAdj g" "distinct (nodes g)"
    "distinct (edges g @ m_hiddenEdges g)"
    using w by (simp_all add: wf_def)
  show ?thesis
    unfolding wf_def list_all_iff
    using b wf_moveSource_nodes[OF assms] wf_moveSource_edges[OF assms]
    by simp
qed

lemma wf_moveTarget_nodes:
  assumes w: "wf g" and x: "x \<in> set (edges g)"
    and pos: "pos \<in> set (adjEdges (nodeMem g (theNode g pos)))" "theNode g pos \<in> set (nodes g)"
    and ne: "m_tgt (edgeMem g x) \<noteq> theNode g pos"
    and u: "u \<in> set (nodes g)"
  shows "wfNode (moveTarget x pos before g) u"
proof -
  let ?g' = "moveTarget x pos before g"
  let ?s = "m_adjTgt (edgeMem g x)" and ?old = "m_tgt (edgeMem g x)" and ?v = "theNode g pos"
  note cx = wf_edgeD(1)[OF w x, unfolded wfEdge_def wfEdgeCore_def]
  note nm = moveTarget_nodeMem[OF ne]
  have old_n: "?old \<in> set (nodes g)" using cx by simp
  note n_u = wf_nodeD(1)[OF w u, unfolded wfNode_alt]
  have s_old: "?s \<in> set (adjEdges (nodeMem g ?old))" using cx by simp
  have s_node: "m_node (adjMem g ?s) = ?old" "m_edge (adjMem g ?s) = x" using cx by simp_all
  have s_src: "\<not> isSrcEntry g ?s" using s_node cx by (simp add: isSrcEntry_def)
  have isSrc: "isSrcEntry ?g' = isSrcEntry g" by (simp add: isSrcEntry_def fun_eq_iff)
  have e_same: "m_edge (adjMem ?g' b) = m_edge (adjMem g b)"
    "m_adjTgt (edgeMem ?g' y) = m_adjTgt (edgeMem g y)"
    "nextAdj ?g' = nextAdj g" "nextNode ?g' = nextNode g" "edges ?g' = edges g" for b y
    by simp_all
  have node_s: "m_node (adjMem ?g' ?s) = ?v" by simp
  have node_o: "b \<noteq> ?s \<Longrightarrow> m_node (adjMem ?g' b) = m_node (adjMem g b)" for b by simp
  consider (old) "u = ?old" | (v) "u = ?v" | (other) "u \<noteq> ?old" "u \<noteq> ?v" by blast
  then show ?thesis
  proof cases
    case old
    have r: "adjEdges (nodeMem ?g' u) = remove1 ?s (adjEdges (nodeMem g u))"
      "m_indeg (nodeMem ?g' u) = m_indeg (nodeMem g u) - 1"
      "m_outdeg (nodeMem ?g' u) = m_outdeg (nodeMem g u)"
      using ne old by (simp_all add: nm del_def)
    have su: "?s \<in> set (adjEdges (nodeMem g u))" using s_old old by simp
    have d: "distinct (remove1 ?s (adjEdges (nodeMem g u)))" using n_u by simp
    have m: "set (remove1 ?s (adjEdges (nodeMem g u))) = set (adjEdges (nodeMem g u)) - {?s}"
      using n_u by simp
    have o: "int (length (filter (isSrcEntry g) (remove1 ?s (adjEdges (nodeMem g u)))))
               = m_outdeg (nodeMem g u)"
      using length_filter_remove1[OF su, of "isSrcEntry g"] n_u s_src by simp
    have i: "int (length (filter (\<lambda>b. \<not> isSrcEntry g b) (remove1 ?s (adjEdges (nodeMem g u)))))
               = m_indeg (nodeMem g u) - 1"
      using length_filter_remove1[OF su, of "\<lambda>b. \<not> isSrcEntry g b"] n_u s_src by simp
    have en: "0 < b \<and> b < nextAdj g \<and> m_node (adjMem ?g' b) = u
           \<and> m_edge (adjMem g b) \<in> set (edges g)
           \<and> (isSrcEntry g b \<or> m_adjTgt (edgeMem g (m_edge (adjMem g b))) = b)"
      if "b \<in> set (adjEdges (nodeMem g u)) - {?s}" for b
      using that n_u node_o[of b] by simp
    show ?thesis
      unfolding wfNode_alt r isSrc e_same m o i
      using n_u d en by blast
  next
    case v
    have r: "adjEdges (nodeMem ?g' u) = insertBefore ?s pos (adjEdges (nodeMem g u))"
      "m_indeg (nodeMem ?g' u) = m_indeg (nodeMem g u) + 1"
      "m_outdeg (nodeMem ?g' u) = m_outdeg (nodeMem g u)"
      using ne v by (simp_all add: nm)
    have s_v: "?s \<notin> set (adjEdges (nodeMem g u))"
      using n_u s_node(1) ne v by auto
    have d: "distinct (insertBefore ?s pos (adjEdges (nodeMem g u)))"
      using n_u s_v by (simp add: distinct_insertBefore)
    have o: "int (length (filter (isSrcEntry g) (insertBefore ?s pos (adjEdges (nodeMem g u)))))
               = m_outdeg (nodeMem g u)"
      using n_u s_src by (simp add: length_filter_insertBefore)
    have i: "int (length (filter (\<lambda>b. \<not> isSrcEntry g b) (insertBefore ?s pos (adjEdges (nodeMem g u)))))
               = m_indeg (nodeMem g u) + 1"
      using n_u s_src by (simp add: length_filter_insertBefore)
    have en: "0 < b \<and> b < nextAdj g \<and> m_node (adjMem ?g' b) = u
           \<and> m_edge (adjMem g b) \<in> set (edges g)
           \<and> (isSrcEntry g b \<or> m_adjTgt (edgeMem g (m_edge (adjMem g b))) = b)"
      if "b \<in> insert ?s (set (adjEdges (nodeMem g u)))" for b
    proof (cases "b = ?s")
      case True
      then show ?thesis using cx x s_src node_s v by simp
    next
      case False
      with that have "b \<in> set (adjEdges (nodeMem g u))" by simp
      with n_u False node_o[of b] show ?thesis by simp
    qed
    show ?thesis
      unfolding wfNode_alt r isSrc e_same set_insertBefore o i
      using n_u d en by blast
  next
    case other
    have r: "nodeMem ?g' u = nodeMem g u" using other by (simp add: nm)
    have en: "m_node (adjMem ?g' b) = u" if "b \<in> set (adjEdges (nodeMem g u))" for b
    proof -
      from that n_u have "m_node (adjMem g b) = u" by simp
      with other(1) s_node(1) have "b \<noteq> ?s" by auto
      with node_o[of b] \<open>m_node (adjMem g b) = u\<close> show ?thesis by simp
    qed
    show ?thesis
      unfolding wfNode_alt r isSrc e_same
      using n_u en by blast
  qed
qed

lemma wf_moveTarget_edges:
  assumes w: "wf g" and x: "x \<in> set (edges g)"
    and pos: "pos \<in> set (adjEdges (nodeMem g (theNode g pos)))" "theNode g pos \<in> set (nodes g)"
    and ne: "m_tgt (edgeMem g x) \<noteq> theNode g pos"
  shows "y \<in> set (edges g) \<Longrightarrow> wfEdge (moveTarget x pos before g) y"
    and "y \<in> set (m_hiddenEdges g) \<Longrightarrow> wfHidden (moveTarget x pos before g) y"
proof -
  let ?g' = "moveTarget x pos before g"
  let ?s = "m_adjTgt (edgeMem g x)" and ?old = "m_tgt (edgeMem g x)" and ?v = "theNode g pos"
  note cx = wf_edgeD(1)[OF w x, unfolded wfEdge_def wfEdgeCore_def]
  note nm = moveTarget_nodeMem[OF ne]
  have rot: "set (adjEdges (nodeMem ?g' u)) =
      (if u = ?v then insert ?s (set (adjEdges (nodeMem g u)))
       else if u = ?old then set (adjEdges (nodeMem g u)) - {?s}
       else set (adjEdges (nodeMem g u)))" for u
  proof -
    have "distinct (adjEdges (nodeMem g ?old))"
      using wf_nodeD(1)[OF w, of ?old] cx by (simp add: wfNode_def)
    then show ?thesis using ne by (simp add: nm del_def)
  qed
  have core: "wfEdgeCore ?g' y" if c: "wfEdgeCore g y" and d: "y \<noteq> x" for y
  proof -
    from c d cx have "m_adjTgt (edgeMem g y) \<noteq> ?s" "m_adjSrc (edgeMem g y) \<noteq> ?s"
      by (auto simp: wfEdgeCore_def)
    with c d show ?thesis by (simp add: wfEdgeCore_def)
  qed
  have corex: "wfEdgeCore ?g' x"
    using cx pos(2) by (simp add: wfEdgeCore_def)
  {
    assume y: "y \<in> set (edges g)"
    note cy = wf_edgeD(1)[OF w y, unfolded wfEdge_def wfEdgeCore_def]
    show "wfEdge ?g' y"
    proof (cases "y = x")
      case True
      have "m_adjSrc (edgeMem g x) \<in> set (adjEdges (nodeMem ?g' (m_src (edgeMem g x))))"
        unfolding rot using cx by auto
      then show ?thesis
        using True corex by (simp add: wfEdge_def rot)
    next
      case False
      from cy cx False have n: "m_adjTgt (edgeMem g y) \<noteq> ?s" "m_adjSrc (edgeMem g y) \<noteq> ?s"
        by auto
      have "m_adjTgt (edgeMem g y) \<in> set (adjEdges (nodeMem ?g' (m_tgt (edgeMem g y))))"
        "m_adjSrc (edgeMem g y) \<in> set (adjEdges (nodeMem ?g' (m_src (edgeMem g y))))"
        unfolding rot using cy n by auto
      then show ?thesis
        using False core[of y] wf_edgeD(2)[OF w y] by (simp add: wfEdge_def)
    qed
  }
  {
    assume y: "y \<in> set (m_hiddenEdges g)"
    note hy = wf_hiddenD[OF w y]
    from hy(3) x have d: "y \<noteq> x" by auto
    note cy = hy(1)[unfolded wfHidden_def wfEdgeCore_def]
    from cy cx d have n: "m_adjTgt (edgeMem g y) \<noteq> ?s" "m_adjSrc (edgeMem g y) \<noteq> ?s"
      by auto
    have "m_adjTgt (edgeMem g y) \<notin> set (adjEdges (nodeMem ?g' (m_tgt (edgeMem g y))))"
      "m_adjSrc (edgeMem g y) \<notin> set (adjEdges (nodeMem ?g' (m_src (edgeMem g y))))"
      unfolding rot using cy n by auto
    then show "wfHidden ?g' y"
      using d core[OF hy(2) d] by (simp add: wfHidden_def)
  }
qed

lemma wf_moveTarget:
  assumes w: "wf g" and x: "x \<in> set (edges g)"
    and pos: "pos \<in> set (adjEdges (nodeMem g (theNode g pos)))" "theNode g pos \<in> set (nodes g)"
    and ne: "m_tgt (edgeMem g x) \<noteq> theNode g pos"
  shows "wf (moveTarget x pos before g)"
proof -
  have b: "0 < nextNode g" "0 < nextEdge g" "0 < nextAdj g" "distinct (nodes g)"
    "distinct (edges g @ m_hiddenEdges g)"
    using w by (simp_all add: wf_def)
  show ?thesis
    unfolding wf_def list_all_iff
    using b wf_moveTarget_nodes[OF assms] wf_moveTarget_edges[OF assms]
    by simp
qed

lemma entry_at:
  assumes w: "wf g" and wn: "w \<in> set (nodes g)" and a: "a \<in> set (adjEdges (nodeMem g w))"
    and nl: "twinNode g a \<noteq> w"
  shows "theEdge g a \<in> set (edges g)" "m_node (adjMem g a) = w"
    and "m_src (edgeMem g (theEdge g a)) = w \<Longrightarrow>
           m_adjSrc (edgeMem g (theEdge g a)) = a \<and> m_tgt (edgeMem g (theEdge g a)) = twinNode g a"
    and "m_src (edgeMem g (theEdge g a)) \<noteq> w \<Longrightarrow>
           m_adjTgt (edgeMem g (theEdge g a)) = a \<and> m_tgt (edgeMem g (theEdge g a)) = w
           \<and> m_src (edgeMem g (theEdge g a)) = twinNode g a"
proof -
  let ?x = "theEdge g a"
  from wf_nodeD(1)[OF w wn] a have
    n: "m_node (adjMem g a) = w" "m_edge (adjMem g a) \<in> set (edges g)"
       "m_adjSrc (edgeMem g (m_edge (adjMem g a))) = a
        \<or> m_adjTgt (edgeMem g (m_edge (adjMem g a))) = a"
    by (auto simp: wfNode_def)
  show x: "?x \<in> set (edges g)" using n(2) by (simp add: theEdge_def)
  show "m_node (adjMem g a) = w" by (rule n(1))
  note c = wf_edgeD(2)[OF w x, unfolded wfEdgeCore_def]
  from n(3) have d: "m_adjSrc (edgeMem g ?x) = a \<or> m_adjTgt (edgeMem g ?x) = a"
    by (simp add: theEdge_def)
  {
    assume s: "m_src (edgeMem g ?x) = w"
    have "m_adjSrc (edgeMem g ?x) = a"
    proof (rule ccontr)
      assume "m_adjSrc (edgeMem g ?x) \<noteq> a"
      with d have t: "m_adjTgt (edgeMem g ?x) = a" by simp
      with c s have "twinNode g a = w" by (simp add: twinNode_def)
      with nl show False by simp
    qed
    with c show "m_adjSrc (edgeMem g ?x) = a \<and> m_tgt (edgeMem g ?x) = twinNode g a"
      by (auto simp: twinNode_def)
  }
  {
    assume s: "m_src (edgeMem g ?x) \<noteq> w"
    with c n(1) have "m_adjSrc (edgeMem g ?x) \<noteq> a" by auto
    with d have t: "m_adjTgt (edgeMem g ?x) = a" by simp
    with c n(1) show "m_adjTgt (edgeMem g ?x) = a \<and> m_tgt (edgeMem g ?x) = w
           \<and> m_src (edgeMem g ?x) = twinNode g a"
      by (auto simp: twinNode_def)
  }
qed

lemma spliceStep_facts:
  assumes w: "wf g" and vn: "v \<in> set (nodes g)" and wn: "w \<in> set (nodes g)" and vw: "v \<noteq> w"
    and pos: "pos \<in> set (adjEdges (nodeMem g v))"
    and a: "a \<in> set (adjEdges (nodeMem g w))"
    and tv: "twinNode g a \<noteq> v" and tw: "twinNode g a \<noteq> w"
  shows "wf (spliceStep pos w a g)"
    and "nodes (spliceStep pos w a g) = nodes g"
    and "edges (spliceStep pos w a g) = edges g"
    and "m_hiddenEdges (spliceStep pos w a g) = m_hiddenEdges g"
    and "adjEdges (nodeMem (spliceStep pos w a g) u) =
           (if u = v then insertBefore a pos (adjEdges (nodeMem g v))
            else if u = w then del a (adjEdges (nodeMem g w))
            else adjEdges (nodeMem g u))"
    and "adjMem (spliceStep pos w a g) = (adjMem g)(a := (adjMem g a)\<lparr> m_node := v \<rparr>)"
    and "edgeMem (spliceStep pos w a g) = (edgeMem g)(theEdge g a :=
           (if m_src (edgeMem g (theEdge g a)) = w
            then (edgeMem g (theEdge g a))\<lparr> m_src := v \<rparr>
            else (edgeMem g (theEdge g a))\<lparr> m_tgt := v \<rparr>))"
proof -
  let ?x = "theEdge g a"
  note ea = entry_at[OF w wn a tw]
  have pv: "theNode g pos = v"
    using wf_nodeD(1)[OF w vn] pos by (simp add: wfNode_def theNode_def)
  have p: "pos \<in> set (adjEdges (nodeMem g (theNode g pos)))" "theNode g pos \<in> set (nodes g)"
    using pos vn pv by simp_all
  show "wf (spliceStep pos w a g)"
  proof (cases "m_src (edgeMem g ?x) = w")
    case True
    then have "m_src (edgeMem g ?x) \<noteq> theNode g pos" using pv vw by simp
    from wf_moveSource[OF w ea(1) p this] True show ?thesis
      by (simp add: spliceStep_def source_def)
  next
    case False
    with ea(4) have "m_tgt (edgeMem g ?x) \<noteq> theNode g pos" using pv vw by simp
    from wf_moveTarget[OF w ea(1) p this] False show ?thesis
      by (simp add: spliceStep_def source_def)
  qed
  show "nodes (spliceStep pos w a g) = nodes g" "edges (spliceStep pos w a g) = edges g"
    "m_hiddenEdges (spliceStep pos w a g) = m_hiddenEdges g"
    by (simp_all add: spliceStep_def Let_def)
  show "adjEdges (nodeMem (spliceStep pos w a g) u) =
           (if u = v then insertBefore a pos (adjEdges (nodeMem g v))
            else if u = w then del a (adjEdges (nodeMem g w))
            else adjEdges (nodeMem g u))"
  proof (cases "m_src (edgeMem g ?x) = w")
    case True
    then have "m_src (edgeMem g ?x) \<noteq> theNode g pos" using pv vw by simp
    from moveSource_nodeMem[OF this] True ea(3) pv vw show ?thesis
      by (simp add: spliceStep_def source_def)
  next
    case False
    with ea(4) have "m_tgt (edgeMem g ?x) \<noteq> theNode g pos" using pv vw by simp
    from moveTarget_nodeMem[OF this] False ea(4) pv vw show ?thesis
      by (simp add: spliceStep_def source_def)
  qed
  show "adjMem (spliceStep pos w a g) = (adjMem g)(a := (adjMem g a)\<lparr> m_node := v \<rparr>)"
    using ea(3,4) pv by (cases "m_src (edgeMem g ?x) = w") (simp_all add: spliceStep_def source_def)
  show "edgeMem (spliceStep pos w a g) = (edgeMem g)(theEdge g a :=
           (if m_src (edgeMem g (theEdge g a)) = w
            then (edgeMem g (theEdge g a))\<lparr> m_src := v \<rparr>
            else (edgeMem g (theEdge g a))\<lparr> m_tgt := v \<rparr>))"
    using pv by (simp add: spliceStep_def source_def)
qed

lemma succ_in_mid:
  "distinct (A @ a # b # B) \<Longrightarrow> succ_in (A @ a # b # B) a = b"
proof (induction A)
  case Nil
  then show ?case by simp
next
  case (Cons c A)
  then show ?case by (cases A) auto
qed

lemma succ_in_last: "distinct (A @ [a]) \<Longrightarrow> succ_in (A @ [a]) a = nullptr"
proof (induction A)
  case Nil
  then show ?case by simp
next
  case (Cons c A)
  then show ?case by (cases A) auto
qed

lemma remove1_mid: "distinct (A @ a # B) \<Longrightarrow> remove1 a (A @ a # B) = A @ B"
  by (induction A) auto

lemma cyclicSucc_at:
  assumes w: "wf g" and wn: "w \<in> set (nodes g)" and r: "adjEdges (nodeMem g w) = A @ a # B"
  shows "cyclicSucc g a = hd (B @ A @ [a])"
proof -
  note n = wf_nodeD(1)[OF w wn, unfolded wfNode_def]
  from n r have na: "m_node (adjMem g a) = w" and d: "distinct (A @ a # B)" by simp_all
  show ?thesis
  proof (cases B)
    case Nil
    with d have "succ_in (A @ [a]) a = nullptr" by (simp add: succ_in_last)
    with Nil r na show ?thesis
      by (cases A) (simp_all add: cyclicSucc_def head_def)
  next
    case (Cons b B')
    with d have s: "succ_in (A @ a # b # B') a = b" by (simp add: succ_in_mid)
    from n r Cons have "0 < b" by simp
    with s Cons r na show ?thesis by (simp add: cyclicSucc_def)
  qed
qed

lemma spliceStep_twinNode:
  assumes w: "wf g" and vn: "v \<in> set (nodes g)" and wn: "w \<in> set (nodes g)" and vw: "v \<noteq> w"
    and pos: "pos \<in> set (adjEdges (nodeMem g v))"
    and a: "a \<in> set (adjEdges (nodeMem g w))"
    and tv: "twinNode g a \<noteq> v" and tw: "twinNode g a \<noteq> w"
    and b: "twinNode g b \<noteq> w"
  shows "twinNode (spliceStep pos w a g) b = twinNode g b"
proof -
  note f = spliceStep_facts[OF w vn wn vw pos a tv tw]
  note ea = entry_at[OF w wn a tw]
  from b ea(2) have "m_twin (adjMem g b) \<noteq> a" by (auto simp: twinNode_def)
  then show ?thesis by (auto simp: twinNode_def f(6))
qed

lemma spliced_refl:
  assumes w: "wf g" and wn: "w \<in> set (nodes g)"
    and all: "\<forall>b \<in> set (adjEdges (nodeMem g w)). twinNode g b = v"
  shows "spliced v w g g"
proof -
  have s: "m_tgt (edgeMem g y) = v" if "y \<in> set (edges g)" "m_src (edgeMem g y) = w" for y
  proof -
    note c = wf_edgeD(1)[OF w that(1), unfolded wfEdge_def wfEdgeCore_def]
    from c that(2) all have "twinNode g (m_adjSrc (edgeMem g y)) = v" by simp
    with c show ?thesis by (simp add: twinNode_def)
  qed
  have t: "m_src (edgeMem g y) = v" if "y \<in> set (edges g)" "m_tgt (edgeMem g y) = w" for y
  proof -
    note c = wf_edgeD(1)[OF w that(1), unfolded wfEdge_def wfEdgeCore_def]
    from c that(2) all have "twinNode g (m_adjTgt (edgeMem g y)) = v" by simp
    with c show ?thesis by (simp add: twinNode_def)
  qed
  show ?thesis
    unfolding spliced_def using w all s t by auto
qed

lemma spliced_step:
  assumes w: "wf g" and vn: "v \<in> set (nodes g)" and wn: "w \<in> set (nodes g)" and vw: "v \<noteq> w"
    and pos: "pos \<in> set (adjEdges (nodeMem g v))"
    and a: "a \<in> set (adjEdges (nodeMem g w))"
    and tv: "twinNode g a \<noteq> v"
    and nl: "\<forall>b \<in> set (adjEdges (nodeMem g w)). twinNode g b \<noteq> w"
    and s: "spliced v w (spliceStep pos w a g) g1"
  shows "spliced v w g g1"
proof -
  let ?g' = "spliceStep pos w a g" and ?x = "theEdge g a"
  from nl a have tw: "twinNode g a \<noteq> w" by blast
  note f = spliceStep_facts[OF w vn wn vw pos a tv tw]
  note ea = entry_at[OF w wn a tw]
  note s' = s[unfolded spliced_def]
  have dw: "distinct (adjEdges (nodeMem g w))"
    using wf_nodeD(1)[OF w wn] by (simp add: wfNode_def)
  have rv: "set (adjEdges (nodeMem ?g' v)) = insert a (set (adjEdges (nodeMem g v)))"
    by (simp add: f(5))
  have rw: "set (adjEdges (nodeMem ?g' w)) = set (adjEdges (nodeMem g w)) - {a}"
    using vw dw by (simp add: f(5) del_def)
  have tn: "twinNode ?g' b = twinNode g b" if "b \<in> set (adjEdges (nodeMem g w))" for b
    using spliceStep_twinNode[OF w vn wn vw pos a tv tw] nl that by blast
  have c1: "wf g1 \<and> nodes g1 = nodes g \<and> edges g1 = edges g \<and> m_hiddenEdges g1 = m_hiddenEdges g"
    using s' f(2,3,4) by simp
  have ef: "m_adjSrc (edgeMem ?g' y) = m_adjSrc (edgeMem g y)"
    "m_adjTgt (edgeMem ?g' y) = m_adjTgt (edgeMem g y)"
    "m_src (edgeMem ?g' y) = (if y = ?x \<and> m_src (edgeMem g ?x) = w then v else m_src (edgeMem g y))"
    "m_tgt (edgeMem ?g' y) = (if y = ?x \<and> m_src (edgeMem g ?x) \<noteq> w then v else m_tgt (edgeMem g y))"
    for y
    by (simp_all add: f(7))
  have c2: "m_adjSrc (edgeMem g1 y) = m_adjSrc (edgeMem g y)
            \<and> m_adjTgt (edgeMem g1 y) = m_adjTgt (edgeMem g y)
            \<and> m_src (edgeMem g1 y) =
                (if y \<in> set (edges g) \<and> m_src (edgeMem g y) = w \<and> m_tgt (edgeMem g y) \<noteq> v
                 then v else m_src (edgeMem g y))
            \<and> m_tgt (edgeMem g1 y) =
                (if y \<in> set (edges g) \<and> m_tgt (edgeMem g y) = w \<and> m_src (edgeMem g y) \<noteq> v
                 then v else m_tgt (edgeMem g y))" for y
  proof -
    from s' have k: "m_adjSrc (edgeMem g1 y) = m_adjSrc (edgeMem ?g' y)"
      "m_adjTgt (edgeMem g1 y) = m_adjTgt (edgeMem ?g' y)"
      "m_src (edgeMem g1 y) =
          (if y \<in> set (edges ?g') \<and> m_src (edgeMem ?g' y) = w \<and> m_tgt (edgeMem ?g' y) \<noteq> v
           then v else m_src (edgeMem ?g' y))"
      "m_tgt (edgeMem g1 y) =
          (if y \<in> set (edges ?g') \<and> m_tgt (edgeMem ?g' y) = w \<and> m_src (edgeMem ?g' y) \<noteq> v
           then v else m_tgt (edgeMem ?g' y))"
      by blast+
    show ?thesis
    proof (cases "y = ?x")
      case False
      then show ?thesis unfolding k ef f(3) by simp
    next
      case True
      show ?thesis
      proof (cases "m_src (edgeMem g ?x) = w")
        case src: True
        from ea(3)[OF src] tv tw have "m_tgt (edgeMem g ?x) \<noteq> v" "m_tgt (edgeMem g ?x) \<noteq> w"
          by simp_all
        then show ?thesis unfolding k ef f(3) using True src ea(1) vw by simp
      next
        case src: False
        from ea(4)[OF src] tv tw have "m_tgt (edgeMem g ?x) = w" "m_src (edgeMem g ?x) \<noteq> v"
          by simp_all
        then show ?thesis unfolding k ef f(3) using True src ea(1) vw by simp
      qed
    qed
  qed
  have c3: "m_edge (adjMem g1 b) = m_edge (adjMem g b) \<and> m_twin (adjMem g1 b) = m_twin (adjMem g b)"
    for b
  proof -
    from s' have "m_edge (adjMem g1 b) = m_edge (adjMem ?g' b)"
      "m_twin (adjMem g1 b) = m_twin (adjMem ?g' b)" by blast+
    then show ?thesis by (simp add: f(6))
  qed
  have c4: "set (adjEdges (nodeMem g1 v)) =
          set (adjEdges (nodeMem g v)) \<union> {b \<in> set (adjEdges (nodeMem g w)). twinNode g b \<noteq> v}"
  proof -
    from s' have "set (adjEdges (nodeMem g1 v)) =
          set (adjEdges (nodeMem ?g' v)) \<union> {b \<in> set (adjEdges (nodeMem ?g' w)). twinNode ?g' b \<noteq> v}"
      by blast
    then show ?thesis unfolding rv rw using tn a tv by auto
  qed
  have c5: "set (adjEdges (nodeMem g1 w)) = {b \<in> set (adjEdges (nodeMem g w)). twinNode g b = v}"
  proof -
    from s' have "set (adjEdges (nodeMem g1 w)) =
          {b \<in> set (adjEdges (nodeMem ?g' w)). twinNode ?g' b = v}"
      by blast
    then show ?thesis unfolding rw using tn a tv by auto
  qed
  have c6: "adjEdges (nodeMem g1 u) = adjEdges (nodeMem g u)" if "u \<noteq> v \<and> u \<noteq> w" for u
  proof -
    from s' that have "adjEdges (nodeMem g1 u) = adjEdges (nodeMem ?g' u)" by blast
    with that show ?thesis by (simp add: f(5))
  qed
  show ?thesis
    unfolding spliced_def using c1 c2 c3 c4 c5 c6 by blast
qed

lemma contract_loop_unfold:
  assumes w: "wf g" and wn: "w \<in> set (nodes g)" and a: "a \<in> set (adjEdges (nodeMem g w))"
    and ne: "a \<noteq> adjTgt"
  shows "contract_loop adjSrc adjTgt v w a g =
           contract_loop adjSrc adjTgt v w (cyclicSucc g a)
             (if twinNode g a = v then g else spliceStep adjSrc w a g)"
proof -
  from wf_nodeD(1)[OF w wn] a have "0 < a" by (simp add: wfNode_def)
  with ne show ?thesis
    by (subst contract_loop.simps) (simp add: spliceStep_def Let_def)
qed

lemma spliceStep_inv:
  assumes w: "wf g" and vn: "v \<in> set (nodes g)" and wn: "w \<in> set (nodes g)" and vw: "v \<noteq> w"
    and pos: "pos \<in> set (adjEdges (nodeMem g v))"
    and a: "a \<in> set (adjEdges (nodeMem g w))"
    and tv: "twinNode g a \<noteq> v"
    and nl: "\<forall>b \<in> set (adjEdges (nodeMem g w)). twinNode g b \<noteq> w"
  shows "wf (spliceStep pos w a g)"
    and "v \<in> set (nodes (spliceStep pos w a g))" "w \<in> set (nodes (spliceStep pos w a g))"
    and "pos \<in> set (adjEdges (nodeMem (spliceStep pos w a g) v))"
    and "adjEdges (nodeMem (spliceStep pos w a g) w) = remove1 a (adjEdges (nodeMem g w))"
    and "\<forall>b \<in> set (adjEdges (nodeMem g w)). twinNode (spliceStep pos w a g) b = twinNode g b"
proof -
  from nl a have tw: "twinNode g a \<noteq> w" by blast
  note f = spliceStep_facts[OF w vn wn vw pos a tv tw]
  show "wf (spliceStep pos w a g)" by (rule f(1))
  show "v \<in> set (nodes (spliceStep pos w a g))" "w \<in> set (nodes (spliceStep pos w a g))"
    using vn wn by (simp_all add: f(2))
  show "pos \<in> set (adjEdges (nodeMem (spliceStep pos w a g) v))"
    using pos by (simp add: f(5))
  show "adjEdges (nodeMem (spliceStep pos w a g) w) = remove1 a (adjEdges (nodeMem g w))"
    using vw by (simp add: f(5) del_def)
  show "\<forall>b \<in> set (adjEdges (nodeMem g w)). twinNode (spliceStep pos w a g) b = twinNode g b"
    using spliceStep_twinNode[OF w vn wn vw pos a tv tw] nl by blast
qed

lemma contract_loop_splices:
  assumes "wf g" "v \<in> set (nodes g)" "w \<in> set (nodes g)" "v \<noteq> w"
    and "adjSrc \<in> set (adjEdges (nodeMem g v))"
    and "adjEdges (nodeMem g w) = K1 @ todo2 @ [adjTgt] @ K2 @ todo1"
    and "todo1 \<noteq> [] \<longrightarrow> K1 = []"
    and "\<forall>b \<in> set (K1 @ [adjTgt] @ K2). twinNode g b = v"
    and "\<forall>b \<in> set (adjEdges (nodeMem g w)). twinNode g b \<noteq> w"
  shows "\<exists>g1. contract_loop adjSrc adjTgt v w (hd (todo1 @ todo2 @ [adjTgt])) g = Some g1
            \<and> spliced v w g g1"
  using assms
proof (induction "length todo1 + length todo2" arbitrary: g K1 K2 todo1 todo2 rule: less_induct)
  case less
  note w = less.prems(1) and vn = less.prems(2) and wn = less.prems(3) and vw = less.prems(4)
    and pos = less.prems(5) and r = less.prems(6) and k1 = less.prems(7) and kv = less.prems(8)
    and nl = less.prems(9)
  have d: "distinct (adjEdges (nodeMem g w))"
    using wf_nodeD(1)[OF w wn] by (simp add: wfNode_def)
  consider (finished) "todo1 = []" "todo2 = []"
    | (first) a t1 where "todo1 = a # t1"
    | (second) a t2 where "todo1 = []" "todo2 = a # t2"
    by (cases todo1; cases todo2) auto
  then show ?case
  proof cases
    case finished
    have l: "contract_loop adjSrc adjTgt v w adjTgt g = Some g"
      by (subst contract_loop.simps) simp
    have "\<forall>b \<in> set (adjEdges (nodeMem g w)). twinNode g b = v"
      using kv r finished by simp
    from spliced_refl[OF w wn this] l finished show ?thesis by simp
  next
    case first
    with k1 have K1: "K1 = []" by simp
    have r': "adjEdges (nodeMem g w) = (todo2 @ [adjTgt] @ K2) @ a # t1"
      using r first K1 by simp
    have a: "a \<in> set (adjEdges (nodeMem g w))" "a \<noteq> adjTgt"
      using d unfolding r' by auto
    have nx: "cyclicSucc g a = hd (t1 @ todo2 @ [adjTgt])"
      using cyclicSucc_at[OF w wn r'] by (cases t1; cases todo2) simp_all
    note u = contract_loop_unfold[OF w wn a, of adjSrc v, unfolded nx]
    show ?thesis
    proof (cases "twinNode g a = v")
      case True
      have "\<exists>g1. contract_loop adjSrc adjTgt v w (hd (t1 @ todo2 @ [adjTgt])) g = Some g1
            \<and> spliced v w g g1"
      proof -
        have rr: "adjEdges (nodeMem g w) = [] @ todo2 @ [adjTgt] @ (K2 @ [a]) @ t1"
          using r' by simp
        show ?thesis
      proof (rule less.hyps[OF _ w vn wn vw pos rr])
        show "length t1 + length todo2 < length todo1 + length todo2" using first by simp
        show "t1 \<noteq> [] \<longrightarrow> [] = []" by simp
        show "\<forall>b\<in>set ([] @ [adjTgt] @ K2 @ [a]). twinNode g b = v" using kv True by simp
        show "\<forall>b\<in>set (adjEdges (nodeMem g w)). twinNode g b \<noteq> w" by (rule nl)
      qed
      qed
      with u True first show ?thesis by simp
    next
      case False
      let ?g' = "spliceStep adjSrc w a g"
      note i = spliceStep_inv[OF w vn wn vw pos a(1) False nl]
      have rw: "adjEdges (nodeMem ?g' w) = todo2 @ [adjTgt] @ K2 @ t1"
        using d remove1_mid[of "todo2 @ [adjTgt] @ K2" a t1] unfolding i(5) r' by simp
      have "\<exists>g1. contract_loop adjSrc adjTgt v w (hd (t1 @ todo2 @ [adjTgt])) ?g' = Some g1
            \<and> spliced v w ?g' g1"
      proof -
        have rr: "adjEdges (nodeMem ?g' w) = [] @ todo2 @ [adjTgt] @ K2 @ t1" using rw by simp
        show ?thesis
      proof (rule less.hyps[OF _ i(1) i(2) i(3) vw i(4) rr])
        show "length t1 + length todo2 < length todo1 + length todo2" using first by simp
        show "t1 \<noteq> [] \<longrightarrow> [] = []" by simp
        show "\<forall>b\<in>set ([] @ [adjTgt] @ K2). twinNode ?g' b = v"
          using kv i(6) r' by auto
        show "\<forall>b\<in>set (adjEdges (nodeMem ?g' w)). twinNode ?g' b \<noteq> w"
          using nl i(6) unfolding rw r' by auto
      qed
      qed
      then obtain g1 where g1: "contract_loop adjSrc adjTgt v w (hd (t1 @ todo2 @ [adjTgt])) ?g' = Some g1"
        "spliced v w ?g' g1" by blast
      from spliced_step[OF w vn wn vw pos a(1) False nl g1(2)] g1(1) u False first
      show ?thesis by simp
    qed
  next
    case second
    have r': "adjEdges (nodeMem g w) = K1 @ a # (t2 @ [adjTgt] @ K2)"
      using r second by simp
    have a: "a \<in> set (adjEdges (nodeMem g w))" "a \<noteq> adjTgt"
      using d unfolding r' by auto
    have nx: "cyclicSucc g a = hd (t2 @ [adjTgt])"
      using cyclicSucc_at[OF w wn r'] by (cases t2) simp_all
    note u = contract_loop_unfold[OF w wn a, of adjSrc v, unfolded nx]
    show ?thesis
    proof (cases "twinNode g a = v")
      case True
      have "\<exists>g1. contract_loop adjSrc adjTgt v w (hd ([] @ t2 @ [adjTgt])) g = Some g1
            \<and> spliced v w g g1"
      proof -
        have rr: "adjEdges (nodeMem g w) = (K1 @ [a]) @ t2 @ [adjTgt] @ K2 @ []" using r' by simp
        show ?thesis
      proof (rule less.hyps[OF _ w vn wn vw pos rr])
        show "length [] + length t2 < length todo1 + length todo2" using second by simp
        show "[] \<noteq> [] \<longrightarrow> K1 @ [a] = []" by simp
        show "\<forall>b\<in>set ((K1 @ [a]) @ [adjTgt] @ K2). twinNode g b = v" using kv True by simp
        show "\<forall>b\<in>set (adjEdges (nodeMem g w)). twinNode g b \<noteq> w" by (rule nl)
      qed
      qed
      with u True second show ?thesis by simp
    next
      case False
      let ?g' = "spliceStep adjSrc w a g"
      note i = spliceStep_inv[OF w vn wn vw pos a(1) False nl]
      have rw: "adjEdges (nodeMem ?g' w) = K1 @ t2 @ [adjTgt] @ K2"
        using d remove1_mid[of K1 a "t2 @ [adjTgt] @ K2"] unfolding i(5) r' by simp
      have "\<exists>g1. contract_loop adjSrc adjTgt v w (hd ([] @ t2 @ [adjTgt])) ?g' = Some g1
            \<and> spliced v w ?g' g1"
      proof -
        have rr: "adjEdges (nodeMem ?g' w) = K1 @ t2 @ [adjTgt] @ K2 @ []" using rw by simp
        show ?thesis
      proof (rule less.hyps[OF _ i(1) i(2) i(3) vw i(4) rr])
        show "length [] + length t2 < length todo1 + length todo2" using second by simp
        show "[] \<noteq> [] \<longrightarrow> K1 = []" by simp
        show "\<forall>b\<in>set (K1 @ [adjTgt] @ K2). twinNode ?g' b = v"
          using kv i(6) r' by auto
        show "\<forall>b\<in>set (adjEdges (nodeMem ?g' w)). twinNode ?g' b \<noteq> w"
          using nl i(6) unfolding rw r' by auto
      qed
      qed
      then obtain g1 where g1: "contract_loop adjSrc adjTgt v w (hd ([] @ t2 @ [adjTgt])) ?g' = Some g1"
        "spliced v w ?g' g1" by blast
      from spliced_step[OF w vn wn vw pos a(1) False nl g1(2)] g1(1) u False second
      show ?thesis by simp
    qed
  qed
qed

lemma filter_remove1_neg: "\<not> P x \<Longrightarrow> filter P (remove1 x xs) = filter P xs"
  by (induction xs) auto

lemma delNode_loop_result:
  assumes "wf g" "w \<in> set (nodes g)"
  shows "\<exists>g'. delNode_loop w g = Some g' \<and> nodes g' = nodes g
           \<and> m_hiddenEdges g' = m_hiddenEdges g \<and> edgeMem g' = edgeMem g \<and> adjMem g' = adjMem g
           \<and> edges g' = filter (awayFrom g w) (edges g)
           \<and> (\<forall>u \<in> set (nodes g). adjEdges (nodeMem g' u) =
                 filter (\<lambda>a. awayFrom g w (m_edge (adjMem g a))) (adjEdges (nodeMem g u)))"
  using assms
proof (induction "length (adjEdges (nodeMem g w))" arbitrary: g rule: less_induct)
  case less
  note w = less.prems(1) and wn = less.prems(2)
  show ?case
  proof (cases "adjEdges (nodeMem g w)")
    case Nil
    then have l: "delNode_loop w g = Some g" by (subst delNode_loop.simps) simp
    have p: "awayFrom g w x" if "x \<in> set (edges g)" for x
    proof -
      note c = wf_edgeD(1)[OF w that, unfolded wfEdge_def wfEdgeCore_def]
      from c Nil show ?thesis by (auto simp: awayFrom_def)
    qed
    have q: "awayFrom g w (m_edge (adjMem g a))"
      if "u \<in> set (nodes g)" "a \<in> set (adjEdges (nodeMem g u))" for u a
      using wf_nodeD(1)[OF w that(1)] that(2) p by (simp add: wfNode_def)
    have "filter (awayFrom g w) (edges g) = edges g" using p by simp
    moreover have "\<forall>u \<in> set (nodes g).
        filter (\<lambda>a. awayFrom g w (m_edge (adjMem g a))) (adjEdges (nodeMem g u)) = adjEdges (nodeMem g u)"
      using q by simp
    ultimately show ?thesis using l by simp
  next
    case (Cons a rest)
    let ?x = "m_edge (adjMem g a)"
    let ?g1 = "delEdge ?x g"
    note n = wf_nodeD(1)[OF w wn, unfolded wfNode_def]
    from n Cons have x: "?x \<in> set (edges g)" and an: "m_node (adjMem g a) = w"
      and ax: "m_adjSrc (edgeMem g ?x) = a \<or> m_adjTgt (edgeMem g ?x) = a"
      by auto
    note c = wf_edgeD(2)[OF w x, unfolded wfEdgeCore_def]
    from c an ax have np: "\<not> awayFrom g w ?x" by (auto simp: awayFrom_def)
    have w1: "wf ?g1" using w x by (rule wf_delEdge)
    have wn1: "w \<in> set (nodes ?g1)" using wn by simp
    have "set (adjEdges (nodeMem ?g1 w)) \<subset> set (adjEdges (nodeMem g w))"
      using unlinked_node(2)[OF w x wn] ax Cons by auto
    moreover have "distinct (adjEdges (nodeMem ?g1 w))" "distinct (adjEdges (nodeMem g w))"
      using unlinked_node(1)[OF w x wn] n by simp_all
    ultimately have "length (adjEdges (nodeMem ?g1 w)) < length (adjEdges (nodeMem g w))"
      by (metis distinct_card finite_set psubset_card_mono)
    from less.hyps[OF this w1 wn1] obtain g' where
      r: "delNode_loop w ?g1 = Some g'" "nodes g' = nodes ?g1"
         "m_hiddenEdges g' = m_hiddenEdges ?g1" "edgeMem g' = edgeMem ?g1" "adjMem g' = adjMem ?g1"
         "edges g' = filter (awayFrom ?g1 w) (edges ?g1)"
         "\<forall>u \<in> set (nodes ?g1). adjEdges (nodeMem g' u) =
             filter (\<lambda>a. awayFrom ?g1 w (m_edge (adjMem ?g1 a))) (adjEdges (nodeMem ?g1 u))"
      by blast
    have l: "delNode_loop w g = Some g'"
      using Cons r(1) by (subst delNode_loop.simps) simp
    have af: "awayFrom ?g1 w = awayFrom g w" by (simp add: awayFrom_def fun_eq_iff)
    have e: "edges g' = filter (awayFrom g w) (edges g)"
      using r(6) np by (simp add: af del_def filter_remove1_neg)
    have q: "\<not> awayFrom g w (m_edge (adjMem g (m_adjSrc (edgeMem g ?x))))"
      "\<not> awayFrom g w (m_edge (adjMem g (m_adjTgt (edgeMem g ?x))))"
      using c np by simp_all
    have ro: "adjEdges (nodeMem g' u) =
        filter (\<lambda>a. awayFrom g w (m_edge (adjMem g a))) (adjEdges (nodeMem g u))"
      if "u \<in> set (nodes g)" for u
    proof -
      from r(7) that have "adjEdges (nodeMem g' u) =
          filter (\<lambda>a. awayFrom g w (m_edge (adjMem g a))) (adjEdges (nodeMem (hideEdge ?x g) u))"
        by (simp add: af)
      also have "\<dots> = filter (\<lambda>a. awayFrom g w (m_edge (adjMem g a))) (adjEdges (nodeMem g u))"
        unfolding unlinked_rotation using q by (simp add: del_def filter_remove1_neg)
      finally show ?thesis .
    qed
    show ?thesis using l r(2,3,4,5) e ro by simp
  qed
qed

lemma delNode_result:
  assumes "wf g" "w \<in> set (nodes g)"
  shows "\<exists>g'. delNode w g = Some g' \<and> nodes g' = del w (nodes g)
           \<and> m_hiddenEdges g' = m_hiddenEdges g \<and> edgeMem g' = edgeMem g \<and> adjMem g' = adjMem g
           \<and> edges g' = filter (awayFrom g w) (edges g)
           \<and> (\<forall>u \<in> set (nodes g). adjEdges (nodeMem g' u) =
                 filter (\<lambda>a. awayFrom g w (m_edge (adjMem g a))) (adjEdges (nodeMem g u)))"
proof -
  let ?g0 = "fold (\<lambda>obs. notify (nodeDeleted obs w)) (m_regStructures g) g"
  have g0: "?g0 = g\<lparr> calls := calls ?g0 \<rparr>" by (simp add: fold_notify)
  have w0: "wf ?g0" "w \<in> set (nodes ?g0)" using assms by (simp_all add: fold_notify)
  have s: "nodes ?g0 = nodes g" "edges ?g0 = edges g" "m_hiddenEdges ?g0 = m_hiddenEdges g"
    "edgeMem ?g0 = edgeMem g" "adjMem ?g0 = adjMem g" "nodeMem ?g0 = nodeMem g"
    by (simp_all add: fold_notify)
  have af: "awayFrom ?g0 w = awayFrom g w" by (simp add: awayFrom_def fun_eq_iff s)
  from delNode_loop_result[OF w0] obtain g1 where
    r: "delNode_loop w ?g0 = Some g1" "nodes g1 = nodes g"
       "m_hiddenEdges g1 = m_hiddenEdges g" "edgeMem g1 = edgeMem g" "adjMem g1 = adjMem g"
       "edges g1 = filter (awayFrom g w) (edges g)"
       "\<forall>u \<in> set (nodes g). adjEdges (nodeMem g1 u) =
             filter (\<lambda>a. awayFrom g w (m_edge (adjMem g a))) (adjEdges (nodeMem g u))"
    unfolding af s by blast
  have "delNode w g = Some (g1\<lparr> nodes := del w (nodes g1) \<rparr>)"
    using r(1) by (simp add: delNode_def Let_def)
  then show ?thesis using r(2-7) by simp
qed

lemma contract_result:
  assumes w: "wf g" and e: "e \<in> set (edges g)"
    and vw: "source g e \<noteq> target g e" and nl: "noSelfLoopAt g (target g e)"
  shows "\<exists>g'. contract e g = Some (g', source g e)
     \<and> nodes g' = del (target g e) (nodes g)
     \<and> edges g' = filter (\<lambda>x. \<not> joins g x (source g e) (target g e)) (edges g)
     \<and> m_hiddenEdges g' = m_hiddenEdges g
     \<and> (\<forall>x \<in> set (edges g').
           source g' x = (if source g x = target g e then source g e else source g x)
           \<and> target g' x = (if target g x = target g e then source g e else target g x)
           \<and> (isSelfLoop g' x \<longleftrightarrow> isSelfLoop g x))
     \<and> set (adjEdges (nodeMem g' (source g e))) =
          {a \<in> set (adjEdges (nodeMem g (source g e))). twinNode g a \<noteq> target g e}
          \<union> {a \<in> set (adjEdges (nodeMem g (target g e))). twinNode g a \<noteq> source g e}
     \<and> (\<forall>a \<in> set (adjEdges (nodeMem g (target g e))).
           twinNode g a \<noteq> source g e \<longrightarrow> theNode g' a = source g e)
     \<and> (\<forall>u \<in> set (nodes g'). u \<noteq> source g e \<longrightarrow>
           adjEdges (nodeMem g' u) = adjEdges (nodeMem g u))"
proof -
  let ?v = "m_src (edgeMem g e)" and ?w = "m_tgt (edgeMem g e)"
  let ?adjSrc = "m_adjSrc (edgeMem g e)" and ?adjTgt = "m_adjTgt (edgeMem g e)"
  note c = wf_edgeD(1)[OF w e, unfolded wfEdge_def wfEdgeCore_def]
  have vn: "?v \<in> set (nodes g)" and wn: "?w \<in> set (nodes g)" using c by simp_all
  have vw': "?v \<noteq> ?w" using vw by (simp add: source_def target_def)
  have pos: "?adjSrc \<in> set (adjEdges (nodeMem g ?v))" using c by simp
  have tgt: "?adjTgt \<in> set (adjEdges (nodeMem g ?w))" using c by simp
  have nl': "\<forall>b \<in> set (adjEdges (nodeMem g ?w)). twinNode g b \<noteq> ?w"
    using nl by (simp add: noSelfLoopAt_def list_all_iff target_def)
  from split_list[OF tgt] obtain pre post where
    r: "adjEdges (nodeMem g ?w) = pre @ ?adjTgt # post" by blast
  have nx: "cyclicSucc g ?adjTgt = hd (post @ pre @ [?adjTgt])"
    by (rule cyclicSucc_at[OF w wn r])
  have tt: "twinNode g ?adjTgt = ?v" using c by (simp add: twinNode_def)
  have "\<exists>g1. contract_loop ?adjSrc ?adjTgt ?v ?w (hd (post @ pre @ [?adjTgt])) g = Some g1
            \<and> spliced ?v ?w g g1"
  proof (rule contract_loop_splices[OF w vn wn vw' pos, where ?K1.0 = "[]" and ?K2.0 = "[]"])
    show "adjEdges (nodeMem g ?w) = [] @ pre @ [?adjTgt] @ [] @ post" using r by simp
    show "post \<noteq> [] \<longrightarrow> [] = []" by simp
    show "\<forall>b\<in>set ([] @ [?adjTgt] @ []). twinNode g b = ?v" using tt by simp
    show "\<forall>b\<in>set (adjEdges (nodeMem g ?w)). twinNode g b \<noteq> ?w" by (rule nl')
  qed
  then obtain g1 where l: "contract_loop ?adjSrc ?adjTgt ?v ?w (cyclicSucc g ?adjTgt) g = Some g1"
    and sp: "spliced ?v ?w g g1" unfolding nx by blast
  note s = sp[unfolded spliced_def]
  from s have w1: "wf g1" and l1: "nodes g1 = nodes g" "edges g1 = edges g"
    "m_hiddenEdges g1 = m_hiddenEdges g" by simp_all
  have ef: "m_src (edgeMem g1 y) =
                (if y \<in> set (edges g) \<and> m_src (edgeMem g y) = ?w \<and> m_tgt (edgeMem g y) \<noteq> ?v
                 then ?v else m_src (edgeMem g y))"
     "m_tgt (edgeMem g1 y) =
                (if y \<in> set (edges g) \<and> m_tgt (edgeMem g y) = ?w \<and> m_src (edgeMem g y) \<noteq> ?v
                 then ?v else m_tgt (edgeMem g y))" for y
    using s by blast+
  have ae: "m_edge (adjMem g1 b) = m_edge (adjMem g b)" for b using s by blast
  have rv: "set (adjEdges (nodeMem g1 ?v)) =
          set (adjEdges (nodeMem g ?v)) \<union> {b \<in> set (adjEdges (nodeMem g ?w)). twinNode g b \<noteq> ?v}"
    and rw: "set (adjEdges (nodeMem g1 ?w)) = {b \<in> set (adjEdges (nodeMem g ?w)). twinNode g b = ?v}"
    and ru: "\<And>u. u \<noteq> ?v \<Longrightarrow> u \<noteq> ?w \<Longrightarrow> adjEdges (nodeMem g1 u) = adjEdges (nodeMem g u)"
    using s by blast+
  have wn1: "?w \<in> set (nodes g1)" "?v \<in> set (nodes g1)" using wn vn l1 by simp_all
  have "?adjTgt \<in> set (adjEdges (nodeMem g1 ?w))" unfolding rw using tgt tt by simp
  with wf_nodeD(1)[OF w1 wn1(1)] have tn: "theNode g1 ?adjTgt = ?w"
    by (simp add: wfNode_def theNode_def)
  from delNode_result[OF w1 wn1(1)] obtain g2 where
    d: "delNode ?w g1 = Some g2" "nodes g2 = del ?w (nodes g)"
       "m_hiddenEdges g2 = m_hiddenEdges g" "edgeMem g2 = edgeMem g1" "adjMem g2 = adjMem g1"
       "edges g2 = filter (awayFrom g1 ?w) (edges g)"
       "\<forall>u \<in> set (nodes g). adjEdges (nodeMem g2 u) =
             filter (\<lambda>a. awayFrom g1 ?w (m_edge (adjMem g a))) (adjEdges (nodeMem g1 u))"
    unfolding l1 ae by blast
  have ct: "contract e g = Some (g2, source g e)"
    using l d(1) tn by (simp add: contract_def Let_def adjSource_def adjTarget_def source_def target_def)
  have aw: "awayFrom g1 ?w x \<longleftrightarrow> \<not> joins g x ?v ?w" if "x \<in> set (edges g)" for x
    using that vw' by (auto simp: awayFrom_def ef joins_def)
  have ed: "edges g2 = filter (\<lambda>x. \<not> joins g x ?v ?w) (edges g)"
    unfolding d(6) using aw by (auto intro: filter_cong)
  have nlx: "m_tgt (edgeMem g x) \<noteq> ?w" if "x \<in> set (edges g)" "m_src (edgeMem g x) = ?w" for x
  proof -
    note cx = wf_edgeD(1)[OF w that(1), unfolded wfEdge_def wfEdgeCore_def]
    from cx that(2) nl' have "twinNode g (m_adjSrc (edgeMem g x)) \<noteq> ?w" by simp
    with cx show ?thesis by (simp add: twinNode_def)
  qed
  have ends: "source g2 x = (if source g x = target g e then source g e else source g x)
           \<and> target g2 x = (if target g x = target g e then source g e else target g x)
           \<and> (isSelfLoop g2 x \<longleftrightarrow> isSelfLoop g x)" if "x \<in> set (edges g2)" for x
  proof -
    from that have x: "x \<in> set (edges g)" and nj: "\<not> joins g x ?v ?w" unfolding ed by simp_all
    from nj nlx[OF x] vw' show ?thesis
      unfolding source_def target_def isSelfLoop_def d(4) ef joins_def using x by auto
  qed
  have keep_v: "awayFrom g1 ?w (m_edge (adjMem g a)) \<longleftrightarrow> twinNode g a \<noteq> ?w"
    if "a \<in> set (adjEdges (nodeMem g ?v))" for a
  proof -
    note re = wf_rotation_entry[OF w vn that]
    from re(2) vw' have "joins g (theEdge g a) ?v ?w \<longleftrightarrow> twinNode g a = ?w"
      by (auto simp: joins_def)
    with aw[OF re(1)] show ?thesis by (simp add: theEdge_def)
  qed
  have keep_w: "awayFrom g1 ?w (m_edge (adjMem g a))"
    if "a \<in> set (adjEdges (nodeMem g ?w))" "twinNode g a \<noteq> ?v" for a
  proof -
    note re = wf_rotation_entry[OF w wn that(1)]
    from nl' that(1) have "twinNode g a \<noteq> ?w" by blast
    with re(2) that(2) vw' have "\<not> joins g (theEdge g a) ?v ?w"
      by (auto simp: joins_def)
    with aw[OF re(1)] show ?thesis by (simp add: theEdge_def)
  qed
  have rotv: "set (adjEdges (nodeMem g2 ?v)) =
          {a \<in> set (adjEdges (nodeMem g ?v)). twinNode g a \<noteq> ?w}
          \<union> {a \<in> set (adjEdges (nodeMem g ?w)). twinNode g a \<noteq> ?v}"
  proof -
    from d(7) vn have "set (adjEdges (nodeMem g2 ?v)) =
        {a \<in> set (adjEdges (nodeMem g1 ?v)). awayFrom g1 ?w (m_edge (adjMem g a))}"
      by simp
    then show ?thesis unfolding rv using keep_v keep_w by auto
  qed
  have moved: "theNode g2 a = ?v"
    if "a \<in> set (adjEdges (nodeMem g ?w))" "twinNode g a \<noteq> ?v" for a
  proof -
    from that have "a \<in> set (adjEdges (nodeMem g1 ?v))" unfolding rv by simp
    with wf_nodeD(1)[OF w1 wn1(2)] show ?thesis by (simp add: wfNode_def theNode_def d(5))
  qed
  have others: "adjEdges (nodeMem g2 u) = adjEdges (nodeMem g u)"
    if "u \<in> set (nodes g2)" "u \<noteq> ?v" for u
  proof -
    have dn: "distinct (nodes g)" using w by (simp add: wf_def)
    from that(1) dn have un: "u \<in> set (nodes g)" and uw: "u \<noteq> ?w"
      unfolding d(2) by (auto simp: del_def)
    have k: "awayFrom g1 ?w (m_edge (adjMem g a))" if a: "a \<in> set (adjEdges (nodeMem g u))" for a
    proof -
      note re = wf_rotation_entry[OF w un a]
      from re(2) uw \<open>u \<noteq> ?v\<close> have "\<not> joins g (theEdge g a) ?v ?w" by (auto simp: joins_def)
      with aw[OF re(1)] show ?thesis by (simp add: theEdge_def)
    qed
    from d(7) un have "adjEdges (nodeMem g2 u) =
        filter (\<lambda>a. awayFrom g1 ?w (m_edge (adjMem g a))) (adjEdges (nodeMem g1 u))" by blast
    also have "\<dots> = filter (\<lambda>a. awayFrom g1 ?w (m_edge (adjMem g a))) (adjEdges (nodeMem g u))"
      using ru[OF that(2) uw] by simp
    also have "\<dots> = adjEdges (nodeMem g u)" using k by simp
    finally show ?thesis .
  qed
  show ?thesis
    apply (rule exI[of _ g2])
    unfolding source_def[of g e] target_def[of g e]
    using ct[unfolded source_def] d(2,3) ed ends[unfolded source_def[of g e] target_def[of g e]]
      rotv moved others
    apply (intro conjI)
    apply blast+
    done
qed

lemma twoParallel_sel:
  "nodes twoParallel = [Suc 0, 2]" "edges twoParallel = [Suc 0, 2]" "m_hiddenEdges twoParallel = []"
  "nextNode twoParallel = 3" "nextEdge twoParallel = 3" "nextAdj twoParallel = 5"
  "nodeMem twoParallel (Suc 0) = \<lparr> n_index = 0, m_indeg = 0, m_outdeg = 2, adjEdges = [Suc 0, 3] \<rparr>"
  "nodeMem twoParallel 2 = \<lparr> n_index = 1, m_indeg = 2, m_outdeg = 0, adjEdges = [2, 4] \<rparr>"
  "edgeMem twoParallel (Suc 0) = \<lparr> e_index = 0, m_src = Suc 0, m_tgt = 2, m_adjSrc = Suc 0, m_adjTgt = 2 \<rparr>"
  "edgeMem twoParallel 2 = \<lparr> e_index = 1, m_src = Suc 0, m_tgt = 2, m_adjSrc = 3, m_adjTgt = 4 \<rparr>"
  "adjMem twoParallel (Suc 0) = \<lparr> m_twin = 2, m_edge = Suc 0, m_node = Suc 0, m_id = 0 \<rparr>"
  "adjMem twoParallel 2 = \<lparr> m_twin = Suc 0, m_edge = Suc 0, m_node = 2, m_id = 1 \<rparr>"
  "adjMem twoParallel 3 = \<lparr> m_twin = 4, m_edge = 2, m_node = Suc 0, m_id = 2 \<rparr>"
  "adjMem twoParallel 4 = \<lparr> m_twin = 3, m_edge = 2, m_node = 2, m_id = 3 \<rparr>"
  by (simp_all add: twoParallel_def newEdge_sel oneEdge_sel oneEdge_edgeIdCount Let_def shl1_def
      int32_def numeral_2_eq_2[symmetric] numeral_3_eq_3[symmetric])

lemma wf_twoParallel: "wf twoParallel"
  by (simp add: wf_def wfNode_def wfEdge_def wfEdgeCore_def twoParallel_sel)

text \<open>
  Claim C1. On a well-formed graph, for an edge \<open>e\<close> with distinct source \<open>v\<close> and target
  \<open>w\<close> and no self-loop at \<open>w\<close>, \<open>contract(e)\<close> returns \<open>v\<close>. Every adjacency entry
  at \<open>w\<close> whose twin is not at \<open>v\<close> is moved into the rotation of \<open>v\<close> and its edge gets
  the end \<open>v\<close> in place of \<open>w\<close>; every entry at \<open>w\<close> whose twin is at \<open>v\<close> is skipped,
  that is the entries of \<open>e\<close> and of every other edge between \<open>v\<close> and \<open>w\<close>. Then \<open>w\<close>
  is deleted, and with it \<open>e\<close> and every other edge between \<open>v\<close> and \<open>w\<close>: the edges
  left are the ones that did not join \<open>v\<close> and \<open>w\<close>, the rotation of \<open>v\<close> holds its
  former entries other than those of the deleted edges and the moved ones, the other
  rotations are unchanged, and an edge that is left is a self-loop exactly if it was one
  before: the contraction makes no self-loop.
\<close>

theorem contract_merges_target:
  assumes "wf g" "e \<in> set (edges g)" "source g e \<noteq> target g e" "noSelfLoopAt g (target g e)"
  shows "\<exists>g'. contract e g = Some (g', source g e)
     \<and> nodes g' = del (target g e) (nodes g)
     \<and> edges g' = filter (\<lambda>x. \<not> joins g x (source g e) (target g e)) (edges g)
     \<and> m_hiddenEdges g' = m_hiddenEdges g
     \<and> (\<forall>x \<in> set (edges g').
           source g' x = (if source g x = target g e then source g e else source g x)
           \<and> target g' x = (if target g x = target g e then source g e else target g x)
           \<and> (isSelfLoop g' x \<longleftrightarrow> isSelfLoop g x))
     \<and> set (adjEdges (nodeMem g' (source g e))) =
          {a \<in> set (adjEdges (nodeMem g (source g e))). twinNode g a \<noteq> target g e}
          \<union> {a \<in> set (adjEdges (nodeMem g (target g e))). twinNode g a \<noteq> source g e}
     \<and> (\<forall>a \<in> set (adjEdges (nodeMem g (target g e))).
           twinNode g a \<noteq> source g e \<longrightarrow> theNode g' a = source g e)
     \<and> (\<forall>u \<in> set (nodes g'). u \<noteq> source g e \<longrightarrow>
           adjEdges (nodeMem g' u) = adjEdges (nodeMem g u))"
  using assms by (rule contract_result)

theorem contract_merges_target_witness:
  "wf pathGraph \<and> Suc 0 \<in> set (edges pathGraph)
   \<and> source pathGraph (Suc 0) = Suc 0 \<and> target pathGraph (Suc 0) = 3
   \<and> noSelfLoopAt pathGraph 3
   \<and> (\<exists>g'. contract (Suc 0) pathGraph = Some (g', Suc 0)
         \<and> nodes g' = [Suc 0, 2] \<and> edges g' = [2]
         \<and> source g' 2 = Suc 0 \<and> target g' 2 = 2 \<and> \<not> isSelfLoop g' 2
         \<and> set (adjEdges (nodeMem g' (Suc 0))) = {4}
         \<and> theNode g' 4 = Suc 0
         \<and> adjEdges (nodeMem g' 2) = [2])"
proof -
  have h: "Suc 0 \<in> set (edges pathGraph)" "source pathGraph (Suc 0) \<noteq> target pathGraph (Suc 0)"
    "noSelfLoopAt pathGraph (target pathGraph (Suc 0))"
    by (simp_all add: source_def target_def noSelfLoopAt_def twinNode_def pathGraph_sel)
  have st: "source pathGraph (Suc 0) = Suc 0" "target pathGraph (Suc 0) = 3"
    by (simp_all add: source_def target_def pathGraph_sel)
  from contract_merges_target[OF wf_pathGraph h] obtain g' where
    r: "contract (Suc 0) pathGraph = Some (g', Suc 0)"
       "nodes g' = del 3 (nodes pathGraph)"
       "edges g' = filter (\<lambda>x. \<not> joins pathGraph x (Suc 0) 3) (edges pathGraph)"
       "\<forall>x \<in> set (edges g').
           source g' x = (if source pathGraph x = 3 then Suc 0 else source pathGraph x)
           \<and> target g' x = (if target pathGraph x = 3 then Suc 0 else target pathGraph x)
           \<and> (isSelfLoop g' x \<longleftrightarrow> isSelfLoop pathGraph x)"
       "set (adjEdges (nodeMem g' (Suc 0))) =
          {a \<in> set (adjEdges (nodeMem pathGraph (Suc 0))). twinNode pathGraph a \<noteq> 3}
          \<union> {a \<in> set (adjEdges (nodeMem pathGraph 3)). twinNode pathGraph a \<noteq> Suc 0}"
       "\<forall>a \<in> set (adjEdges (nodeMem pathGraph 3)).
           twinNode pathGraph a \<noteq> Suc 0 \<longrightarrow> theNode g' a = Suc 0"
       "\<forall>u \<in> set (nodes g'). u \<noteq> Suc 0 \<longrightarrow>
           adjEdges (nodeMem g' u) = adjEdges (nodeMem pathGraph u)"
    unfolding st by blast
  have n: "nodes g' = [Suc 0, 2]" unfolding r(2) by (simp add: del_def pathGraph_sel)
  have e: "edges g' = [2]" unfolding r(3) by (simp add: joins_def pathGraph_sel)
  have x: "source g' 2 = Suc 0 \<and> target g' 2 = 2 \<and> \<not> isSelfLoop g' 2"
    using r(4) unfolding e by (simp add: source_def target_def isSelfLoop_def pathGraph_sel)
  have rv: "set (adjEdges (nodeMem g' (Suc 0))) = {4}"
    unfolding r(5) by (auto simp: twinNode_def pathGraph_sel)
  have mv: "theNode g' 4 = Suc 0"
    using r(6) by (simp add: twinNode_def pathGraph_sel)
  have ro: "adjEdges (nodeMem g' 2) = [2]"
    using r(7) unfolding n by (simp add: pathGraph_sel)
  from wf_pathGraph h(1) st h(3) r(1) n e x rv mv ro show ?thesis
    unfolding st by blast
qed

text \<open>
  On two nodes with two parallel edges \<open>1 \<rightarrow> 2\<close>, the target-side entry of the second
  edge is not the twin of the first edge's source entry, yet contracting the first edge
  skips it: the second edge is deleted with the target node and no self-loop is left.
\<close>

theorem contract_deletes_parallel_edges:
  "wf twoParallel \<and> edges twoParallel = [Suc 0, 2]
   \<and> source twoParallel (Suc 0) = Suc 0 \<and> target twoParallel (Suc 0) = 2
   \<and> source twoParallel 2 = Suc 0 \<and> target twoParallel 2 = 2
   \<and> adjTarget twoParallel 2 \<noteq> twin twoParallel (adjSource twoParallel (Suc 0))
   \<and> (\<exists>g'. contract (Suc 0) twoParallel = Some (g', Suc 0)
         \<and> nodes g' = [Suc 0] \<and> edges g' = [])"
proof -
  have h: "Suc 0 \<in> set (edges twoParallel)" "source twoParallel (Suc 0) \<noteq> target twoParallel (Suc 0)"
    "noSelfLoopAt twoParallel (target twoParallel (Suc 0))"
    by (simp_all add: source_def target_def noSelfLoopAt_def twinNode_def twoParallel_sel)
  have st: "source twoParallel (Suc 0) = Suc 0" "target twoParallel (Suc 0) = 2"
    "source twoParallel 2 = Suc 0" "target twoParallel 2 = 2"
    "adjTarget twoParallel 2 \<noteq> twin twoParallel (adjSource twoParallel (Suc 0))"
    by (simp_all add: source_def target_def adjTarget_def adjSource_def twin_def twoParallel_sel)
  from contract_result[OF wf_twoParallel h] obtain g' where
    r: "contract (Suc 0) twoParallel = Some (g', Suc 0)"
       "nodes g' = del 2 (nodes twoParallel)"
       "edges g' = filter (\<lambda>x. \<not> joins twoParallel x (Suc 0) 2) (edges twoParallel)"
    unfolding st by blast
  have n: "nodes g' = [Suc 0]" unfolding r(2) by (simp add: del_def twoParallel_sel)
  have e: "edges g' = []" unfolding r(3) by (simp add: joins_def twoParallel_sel)
  from wf_twoParallel st r(1) n e show ?thesis by (simp add: twoParallel_sel)
qed

section \<open>Notifications of deletions\<close>

lemma uniq_Nil [simp]: "uniq [] = []"
  by (simp add: uniq_def)

lemma uniq_Cons: "uniq (x # xs) = x # uniq (filter (\<lambda>y. y \<noteq> x) xs)"
proof -
  have "remdups (ys @ [x]) = remdups (filter (\<lambda>y. y \<noteq> x) ys) @ [x]" for ys
    by (induction ys) auto
  then show ?thesis by (simp add: uniq_def rev_filter)
qed

lemma set_uniq [simp]: "set (uniq xs) = set xs"
  by (simp add: uniq_def)

lemma distinct_uniq [simp]: "distinct (uniq xs)"
  by (simp add: uniq_def)

lemma wf_edgeIntact:
  assumes "wf g" "e \<in> set (edges g)"
  shows "edgeIntact (snapshot g) e"
  using wf_edgeD(1)[OF assms] assms(2)
  by (simp add: edgeIntact_def snapshot_def wfEdge_def wfEdgeCore_def)

lemma wf_nodeIntact:
  assumes "wf g" "v \<in> set (nodes g)"
  shows "nodeIntact (snapshot g) v"
proof -
  note n = wf_nodeD(1)[OF assms, unfolded wfNode_def]
  have "m_node (adjMem g a) = v \<and> edgeIntact (snapshot g) (m_edge (adjMem g a))
      \<and> (m_adjSrc (edgeMem g (m_edge (adjMem g a))) = a
          \<or> m_adjTgt (edgeMem g (m_edge (adjMem g a))) = a)"
    if "a \<in> set (adjEdges (nodeMem g v))" for a
    using n that wf_edgeIntact[OF assms(1), of "m_edge (adjMem g a)"] by simp
  then show ?thesis
    using assms(2) by (simp add: nodeIntact_def list_all_iff snapshot_def)
qed

lemma cond_remove1:
  assumes "distinct xs" "a \<in> set xs \<longleftrightarrow> c"
  shows "(if c then del a else id) xs = filter (\<lambda>b. b \<noteq> a) xs"
proof -
  have r0: "filter (\<lambda>b. b \<noteq> a) ys = ys" if "a \<notin> set ys" for ys
    using that by (induction ys) auto
  have r1: "remove1 a ys = filter (\<lambda>b. b \<noteq> a) ys" if "distinct ys" for ys
    using that by (induction ys) (auto simp: r0)
  show ?thesis
  proof (cases c)
    case True
    then show ?thesis using r1[OF assms(1)] by (simp add: del_def)
  next
    case False
    with assms(2) have "a \<notin> set xs" by simp
    from r0[OF this] False show ?thesis by simp
  qed
qed

text \<open>The entries of the edge \<open>x\<close> in the rotation of \<open>v\<close> are the ones that leave with it.\<close>

lemma rotation_without:
  assumes w: "wf g" and x: "x \<in> set (edges g)" and vn: "v \<in> set (nodes g)"
  shows "adjEdges (nodeMem (delEdge x g) v) =
           filter (\<lambda>b. theEdge g b \<noteq> x) (adjEdges (nodeMem g v))"
proof -
  note c = wf_edgeD(1)[OF w x, unfolded wfEdge_def wfEdgeCore_def]
  note n = wf_nodeD(1)[OF w vn, unfolded wfNode_def]
  let ?s = "m_adjSrc (edgeMem g x)" and ?t = "m_adjTgt (edgeMem g x)"
  let ?R = "adjEdges (nodeMem g v)"
  have d: "distinct ?R" using n by simp
  have k: "theEdge g b = x \<longleftrightarrow> b = ?s \<or> b = ?t" if "b \<in> set ?R" for b
    using n c that by (auto simp: theEdge_def)
  have s: "?s \<in> set ?R \<longleftrightarrow> v = m_src (edgeMem g x)" using n c by auto
  have t: "?t \<in> set ?R \<longleftrightarrow> v = m_tgt (edgeMem g x)" using n c by auto
  have "adjEdges (nodeMem (delEdge x g) v) =
      (if v = m_tgt (edgeMem g x) then del ?t else id)
        ((if v = m_src (edgeMem g x) then del ?s else id) ?R)"
    by (simp add: unlinked_rotation del: hideEdge_sel)
  also have "\<dots> = filter (\<lambda>b. b \<noteq> ?t) (filter (\<lambda>b. b \<noteq> ?s) ?R)"
  proof -
    have 1: "(if v = m_src (edgeMem g x) then del ?s else id) ?R = filter (\<lambda>b. b \<noteq> ?s) ?R"
      using d s by (rule cond_remove1)
    have d1: "distinct (filter (\<lambda>b. b \<noteq> ?s) ?R)" using d by simp
    have t1: "?t \<in> set (filter (\<lambda>b. b \<noteq> ?s) ?R) \<longleftrightarrow> v = m_tgt (edgeMem g x)"
      using t c by auto
    have 2: "(if v = m_tgt (edgeMem g x) then del ?t else id) (filter (\<lambda>b. b \<noteq> ?s) ?R)
               = filter (\<lambda>b. b \<noteq> ?t) (filter (\<lambda>b. b \<noteq> ?s) ?R)"
      using d1 t1 by (rule cond_remove1)
    show ?thesis unfolding 1 2 ..
  qed
  also have "\<dots> = filter (\<lambda>b. theEdge g b \<noteq> x) ?R"
    using k by (auto intro: filter_cong)
  finally show ?thesis .
qed

lemma delNode_loop_rounds:
  assumes "wf g" "v \<in> set (nodes g)"
  shows "\<exists>g' rounds. delNode_loop v g = Some g'
           \<and> m_regStructures g' = m_regStructures g
           \<and> calls g' = calls g @ edgeRounds (m_regStructures g) rounds
           \<and> map fst rounds = uniq (map (theEdge g) (adjEdges (nodeMem g v)))
           \<and> (\<forall>(e, s) \<in> set rounds. edgeIntact s e \<and> nodeIntact s v
                  \<and> s_nodes s = nodes g \<and> s_edgeMem s = edgeMem g \<and> s_adjMem s = adjMem g)"
  using assms
proof (induction "length (adjEdges (nodeMem g v))" arbitrary: g rule: less_induct)
  case less
  note w = less.prems(1) and vn = less.prems(2)
  show ?case
  proof (cases "adjEdges (nodeMem g v)")
    case Nil
    then have "delNode_loop v g = Some g" by (subst delNode_loop.simps) simp
    then show ?thesis using Nil
      by (intro exI[of _ g] exI[of _ "[]"]) (simp add: edgeRounds_def)
  next
    case (Cons a rest)
    let ?x = "m_edge (adjMem g a)"
    let ?g1 = "delEdge ?x g"
    note n = wf_nodeD(1)[OF w vn, unfolded wfNode_def]
    from n Cons have x: "?x \<in> set (edges g)" by auto
    have w1: "wf ?g1" using w x by (rule wf_delEdge)
    have v1: "v \<in> set (nodes ?g1)" using vn by simp
    have te: "theEdge ?g1 = theEdge g" by (simp add: theEdge_def fun_eq_iff)
    have r1: "adjEdges (nodeMem ?g1 v) = filter (\<lambda>b. theEdge g b \<noteq> ?x) rest"
      using rotation_without[OF w x vn] Cons by (simp add: theEdge_def)
    have "length (adjEdges (nodeMem ?g1 v)) < length (adjEdges (nodeMem g v))"
      unfolding r1 Cons by (simp add: le_imp_less_Suc)
    from less.hyps[OF this w1 v1] obtain g' rounds where
      r: "delNode_loop v ?g1 = Some g'" "m_regStructures g' = m_regStructures ?g1"
         "calls g' = calls ?g1 @ edgeRounds (m_regStructures ?g1) rounds"
         "map fst rounds = uniq (map (theEdge ?g1) (adjEdges (nodeMem ?g1 v)))"
         "\<forall>(e, s) \<in> set rounds. edgeIntact s e \<and> nodeIntact s v
              \<and> s_nodes s = nodes ?g1 \<and> s_edgeMem s = edgeMem ?g1 \<and> s_adjMem s = adjMem ?g1"
      by blast
    have l: "delNode_loop v g = Some g'"
      using Cons r(1) by (subst delNode_loop.simps) simp
    have c: "calls g' = calls g @ edgeRounds (m_regStructures g) ((?x, snapshot g) # rounds)"
      using r(3) by (simp add: edgeRounds_def deletionRound_def)
    have o: "map fst ((?x, snapshot g) # rounds) = uniq (map (theEdge g) (adjEdges (nodeMem g v)))"
    proof -
      have "map fst rounds = uniq (map (theEdge g) (filter (\<lambda>b. theEdge g b \<noteq> ?x) rest))"
        using r(4) unfolding te r1 .
      then show ?thesis
        unfolding Cons by (simp add: uniq_Cons filter_map comp_def theEdge_def)
    qed
    have k: "edgeIntact (snapshot g) ?x \<and> nodeIntact (snapshot g) v
        \<and> s_nodes (snapshot g) = nodes g \<and> s_edgeMem (snapshot g) = edgeMem g
        \<and> s_adjMem (snapshot g) = adjMem g"
      using wf_edgeIntact[OF w x] wf_nodeIntact[OF w vn] by (simp add: snapshot_def)
    have a: "\<forall>(e, s) \<in> set ((?x, snapshot g) # rounds). edgeIntact s e \<and> nodeIntact s v
              \<and> s_nodes s = nodes g \<and> s_edgeMem s = edgeMem g \<and> s_adjMem s = adjMem g"
      using r(5) k by simp
    show ?thesis
      using l r(2) c o a
      by (intro exI[of _ g'] exI[of _ "(?x, snapshot g) # rounds"]) simp
  qed
qed

lemma incident_edges:
  assumes w: "wf g" and vn: "v \<in> set (nodes g)"
  shows "set (map (theEdge g) (adjEdges (nodeMem g v))) = {x \<in> set (edges g). \<not> awayFrom g v x}"
proof (intro set_eqI iffI)
  fix x assume "x \<in> set (map (theEdge g) (adjEdges (nodeMem g v)))"
  then obtain a where a: "a \<in> set (adjEdges (nodeMem g v))" "x = theEdge g a" by auto
  from wf_rotation_entry[OF w vn a(1)] a(2)
  show "x \<in> {x \<in> set (edges g). \<not> awayFrom g v x}"
    by (auto simp: joins_def awayFrom_def)
next
  fix x assume "x \<in> {x \<in> set (edges g). \<not> awayFrom g v x}"
  then have x: "x \<in> set (edges g)" and i: "m_src (edgeMem g x) = v \<or> m_tgt (edgeMem g x) = v"
    by (auto simp: awayFrom_def)
  note c = wf_edgeD(1)[OF w x, unfolded wfEdge_def wfEdgeCore_def]
  from i show "x \<in> set (map (theEdge g) (adjEdges (nodeMem g v)))"
  proof
    assume "m_src (edgeMem g x) = v"
    with c have "m_adjSrc (edgeMem g x) \<in> set (adjEdges (nodeMem g v))"
      "theEdge g (m_adjSrc (edgeMem g x)) = x" by (simp_all add: theEdge_def)
    then show ?thesis by force
  next
    assume "m_tgt (edgeMem g x) = v"
    with c have "m_adjTgt (edgeMem g x) \<in> set (adjEdges (nodeMem g v))"
      "theEdge g (m_adjTgt (edgeMem g x)) = x" by (simp_all add: theEdge_def)
    then show ?thesis by force
  qed
qed

lemma delNode_notifies:
  assumes w: "wf g" and vn: "v \<in> set (nodes g)"
  shows "\<exists>g' rounds. delNode v g = Some g'
           \<and> calls g' = calls g
               @ deletionRound (m_regStructures g) (\<lambda>obs. nodeDeleted obs v) (snapshot g)
               @ edgeRounds (m_regStructures g) rounds
           \<and> nodeIntact (snapshot g) v
           \<and> map fst rounds = uniq (map (theEdge g) (adjEdges (nodeMem g v)))
           \<and> distinct (map fst rounds)
           \<and> set (map fst rounds) = {x \<in> set (edges g). \<not> awayFrom g v x}
           \<and> (\<forall>(e, s) \<in> set rounds. edgeIntact s e \<and> nodeIntact s v
                  \<and> s_nodes s = nodes g \<and> s_edgeMem s = edgeMem g \<and> s_adjMem s = adjMem g)
           \<and> edges g' = filter (awayFrom g v) (edges g)
           \<and> v \<notin> set (nodes g')"
proof -
  let ?g0 = "fold (\<lambda>obs. notify (nodeDeleted obs v)) (m_regStructures g) g"
  have g0: "?g0 = g\<lparr> calls := calls g @ deletionRound (m_regStructures g) (\<lambda>obs. nodeDeleted obs v) (snapshot g) \<rparr>"
    by (simp add: fold_notify deletionRound_def)
  have w0: "wf ?g0" "v \<in> set (nodes ?g0)" using w vn by (simp_all add: g0)
  have te: "theEdge ?g0 = theEdge g" by (simp add: g0 theEdge_def fun_eq_iff)
  from delNode_loop_rounds[OF w0] obtain g1 rounds where
    r: "delNode_loop v ?g0 = Some g1"
       "calls g1 = calls ?g0 @ edgeRounds (m_regStructures ?g0) rounds"
       "map fst rounds = uniq (map (theEdge ?g0) (adjEdges (nodeMem ?g0 v)))"
       "\<forall>(e, s) \<in> set rounds. edgeIntact s e \<and> nodeIntact s v
              \<and> s_nodes s = nodes ?g0 \<and> s_edgeMem s = edgeMem ?g0 \<and> s_adjMem s = adjMem ?g0"
    by blast
  from delNode_result[OF w vn] obtain g2 where
    d: "delNode v g = Some g2" "nodes g2 = del v (nodes g)"
       "edges g2 = filter (awayFrom g v) (edges g)"
    by blast
  have d1: "delNode v g = Some (g1\<lparr> nodes := del v (nodes g1) \<rparr>)"
    using r(1) by (simp add: delNode_def Let_def)
  with d(1) have e: "g2 = g1\<lparr> nodes := del v (nodes g1) \<rparr>" by simp
  have c: "calls g2 = calls g
               @ deletionRound (m_regStructures g) (\<lambda>obs. nodeDeleted obs v) (snapshot g)
               @ edgeRounds (m_regStructures g) rounds"
    using r(2) by (simp add: e g0)
  have o: "map fst rounds = uniq (map (theEdge g) (adjEdges (nodeMem g v)))"
    using r(3) unfolding te by (simp add: g0)
  have s: "set (map fst rounds) = {x \<in> set (edges g). \<not> awayFrom g v x}"
    unfolding o using incident_edges[OF w vn] by simp
  have di: "distinct (map fst rounds)" unfolding o by simp
  have a: "\<forall>(e, s) \<in> set rounds. edgeIntact s e \<and> nodeIntact s v
              \<and> s_nodes s = nodes g \<and> s_edgeMem s = edgeMem g \<and> s_adjMem s = adjMem g"
    using r(4) by (simp add: g0)
  have dn: "distinct (nodes g)" using w by (simp add: wf_def)
  have vn2: "v \<notin> set (nodes g2)" unfolding d(2) using dn by (simp add: del_def)
  from d(1) c wf_nodeIntact[OF w vn] o di s a d(3) vn2 show ?thesis by blast
qed

lemma unsplit_merge_calls:
  "\<exists>pre. calls (unsplit_merge eIn eOut g) = calls g @ pre
        @ deletionRound (m_regStructures g) (\<lambda>obs. edgeDeleted obs eOut) (mergedView eIn eOut g)
        @ deletionRound (m_regStructures g) (\<lambda>obs. nodeDeleted obs (m_tgt (edgeMem g eIn)))
            (mergedView eIn eOut g)
     \<and> list_all (\<lambda>c. isResetIndexCall (fst c)) pre"
proof -
  let ?g7 = "updAdj (m_adjTgt (edgeMem g eOut)) (\<lambda>a. a\<lparr> m_edge := eIn \<rparr>)
     (updAdj (m_adjTgt (edgeMem g eOut)) (\<lambda>a. a\<lparr> m_twin := m_adjSrc (edgeMem g eIn) \<rparr>)
     (updAdj (m_adjSrc (edgeMem g eIn)) (\<lambda>a. a\<lparr> m_twin := m_adjTgt (edgeMem g eOut) \<rparr>)
     (updEdge eIn (\<lambda>x. x\<lparr> m_adjTgt := m_adjTgt (edgeMem g eOut) \<rparr>)
     (updAdj (m_adjTgt (edgeMem g eOut))
        (\<lambda>a. a\<lparr> m_id := m_id (adjMem g (m_adjTgt (edgeMem g eIn))) \<rparr>)
     (resetAdjEntryIndex (m_id (adjMem g (m_adjTgt (edgeMem g eIn))))
        (m_id (adjMem g (m_adjTgt (edgeMem g eOut))))
     (updEdge eIn (\<lambda>x. x\<lparr> m_tgt := m_tgt (edgeMem g eOut) \<rparr>) g))))))"
  have v: "snapshot ?g7 = mergedView eIn eOut g"
    by (simp add: snapshot_def mergedView_def resetAdjEntryIndex_def fold_notify updAdj_def
        updEdge_def Let_def)
  have "calls (unsplit_merge eIn eOut g) = calls ?g7
        @ deletionRound (m_regStructures g) (\<lambda>obs. edgeDeleted obs eOut) (snapshot ?g7)
        @ deletionRound (m_regStructures g) (\<lambda>obs. nodeDeleted obs (m_tgt (edgeMem g eIn)))
            (snapshot ?g7)"
    by (simp add: unsplit_merge_def resetAdjEntryIndex_def fold_notify updAdj_def updEdge_def
        target_def Let_def deletionRound_def)
  moreover have "\<exists>pre. calls ?g7 = calls g @ pre \<and> list_all (\<lambda>c. isResetIndexCall (fst c)) pre"
    by (simp add: resetAdjEntryIndex_def fold_notify updAdj_def updEdge_def list_all_iff)
  ultimately show ?thesis unfolding v by auto
qed

lemma mergedView_facts:
  assumes w: "wf g" and i: "eIn \<in> set (edges g)" and o: "eOut \<in> set (edges g)"
    and ne: "eIn \<noteq> eOut"
  shows "s_nodes (mergedView eIn eOut g) = nodes g" "s_edges (mergedView eIn eOut g) = edges g"
    and "s_nodeMem (mergedView eIn eOut g) = nodeMem g"
    and "s_edgeMem (mergedView eIn eOut g) eOut = edgeMem g eOut"
    and "m_tgt (s_edgeMem (mergedView eIn eOut g) eIn) = m_tgt (edgeMem g eOut)"
    and "m_edge (s_adjMem (mergedView eIn eOut g) (m_adjTgt (edgeMem g eOut))) = eIn"
    and "m_twin (s_adjMem (mergedView eIn eOut g) (m_adjTgt (edgeMem g eOut))) = m_adjSrc (edgeMem g eIn)"
    and "\<not> edgeIntact (mergedView eIn eOut g) eOut"
    and "\<not> nodeIntact (mergedView eIn eOut g) (m_tgt (edgeMem g eIn))"
proof -
  let ?s = "mergedView eIn eOut g"
  note ci = wf_edgeD(1)[OF w i, unfolded wfEdge_def wfEdgeCore_def]
  note co = wf_edgeD(1)[OF w o, unfolded wfEdge_def wfEdgeCore_def]
  let ?t = "m_adjTgt (edgeMem g eIn)"
  from ci co ne have d: "m_adjSrc (edgeMem g eIn) \<noteq> m_adjTgt (edgeMem g eOut)"
    "?t \<noteq> m_adjTgt (edgeMem g eOut)" "?t \<noteq> m_adjSrc (edgeMem g eIn)"
    by auto
  show "s_nodes ?s = nodes g" "s_edges ?s = edges g" "s_nodeMem ?s = nodeMem g"
    by (simp_all add: mergedView_def)
  show eo: "s_edgeMem ?s eOut = edgeMem g eOut" using ne by (simp add: mergedView_def)
  show "m_tgt (s_edgeMem ?s eIn) = m_tgt (edgeMem g eOut)" by (simp add: mergedView_def)
  show me: "m_edge (s_adjMem ?s (m_adjTgt (edgeMem g eOut))) = eIn"
    by (simp add: mergedView_def Let_def)
  show "m_twin (s_adjMem ?s (m_adjTgt (edgeMem g eOut))) = m_adjSrc (edgeMem g eIn)"
    by (simp add: mergedView_def Let_def)
  show "\<not> edgeIntact ?s eOut"
    using me ne unfolding edgeIntact_def eo by simp
  have tr: "?t \<in> set (adjEdges (s_nodeMem ?s (m_tgt (edgeMem g eIn))))"
    using ci by (simp add: mergedView_def)
  have te: "m_edge (s_adjMem ?s ?t) = eIn"
    using d ci by (simp add: mergedView_def Let_def)
  have "m_adjSrc (s_edgeMem ?s eIn) \<noteq> ?t" "m_adjTgt (s_edgeMem ?s eIn) \<noteq> ?t"
    using d by (simp_all add: mergedView_def)
  with te have "\<not> (m_adjSrc (s_edgeMem ?s (m_edge (s_adjMem ?s ?t))) = ?t
      \<or> m_adjTgt (s_edgeMem ?s (m_edge (s_adjMem ?s ?t))) = ?t)" by simp
  with tr show "\<not> nodeIntact ?s (m_tgt (edgeMem g eIn))"
    unfolding nodeIntact_def list_all_iff by blast
qed

lemma unsplit_notifies:
  assumes w: "wf g" and i: "eIn \<in> set (edges g)" and o: "eOut \<in> set (edges g)"
    and u: "unsplit eIn eOut g = Inr h"
  shows "(\<exists>pre. calls h = calls g @ pre
             @ deletionRound (m_regStructures g) (\<lambda>obs. edgeDeleted obs eOut) (mergedView eIn eOut g)
             @ deletionRound (m_regStructures g) (\<lambda>obs. nodeDeleted obs (target g eIn))
                 (mergedView eIn eOut g)
           \<and> list_all (\<lambda>c. isResetIndexCall (fst c)) pre)
     \<and> s_nodes (mergedView eIn eOut g) = nodes g \<and> s_edges (mergedView eIn eOut g) = edges g
     \<and> s_nodeMem (mergedView eIn eOut g) = nodeMem g
     \<and> s_edgeMem (mergedView eIn eOut g) = edgeMem h
     \<and> s_adjMem (mergedView eIn eOut g) = adjMem h
     \<and> s_edgeMem (mergedView eIn eOut g) eOut = edgeMem g eOut
     \<and> target g eIn \<noteq> m_tgt (s_edgeMem (mergedView eIn eOut g) eIn)
     \<and> m_edge (s_adjMem (mergedView eIn eOut g) (adjTarget g eOut)) = eIn
     \<and> m_twin (s_adjMem (mergedView eIn eOut g) (adjTarget g eOut)) = adjSource g eIn
     \<and> \<not> edgeIntact (mergedView eIn eOut g) eOut
     \<and> \<not> nodeIntact (mergedView eIn eOut g) (target g eIn)
     \<and> eOut \<notin> set (edges h) \<and> target g eIn \<notin> set (nodes h)"
proof -
  note k = unsplit_Inr[OF u]
  note f = mergedView_facts[OF w i o k(2)]
  have sl: "m_src (edgeMem g eOut) \<noteq> m_tgt (edgeMem g eOut)" "m_src (edgeMem g eOut) = m_tgt (edgeMem g eIn)"
    using u by (auto simp: unsplit_def Let_def isSelfLoop_def source_def target_def split: if_splits)
  have d: "distinct (edges g)" "distinct (nodes g)" using w by (simp_all add: wf_def)
  have x: "eOut \<notin> set (edges h)" "target g eIn \<notin> set (nodes h)"
    using d by (simp_all add: k(1) del_def target_def)
  have m: "s_edgeMem (mergedView eIn eOut g) = edgeMem h" "s_adjMem (mergedView eIn eOut g) = adjMem h"
    unfolding k(1) by (simp_all add: mergedView_def)
  have t: "target g eIn \<noteq> m_tgt (s_edgeMem (mergedView eIn eOut g) eIn)"
    unfolding f(5) target_def using sl by simp
  from unsplit_merge_calls[of eIn eOut g] f(1,2,3,4,6,7,8,9) m t x show ?thesis
    unfolding k(1) target_def adjTarget_def adjSource_def by blast
qed

text \<open>
  Claim C4. On a well-formed graph, \<open>delEdge(e)\<close> calls \<open>edgeDeleted(e)\<close> on every
  registered observer, in the order of the registry, and each of them sees the graph as it
  was before the call, in which \<open>e\<close> is intact; \<open>e\<close> is gone afterwards. \<open>delNode(v)\<close>
  returns; it first calls \<open>nodeDeleted(v)\<close> on every observer in that order, each seeing
  the graph before the call, in which \<open>v\<close> is intact; then it deletes the edges at \<open>v\<close>,
  each exactly once and in the order of their first entry in the rotation of \<open>v\<close>, each
  with its own round of \<open>edgeDeleted\<close> calls issued before the edge is taken out: the
  round sees the edge and \<open>v\<close> intact, with the edge and adjacency records of the graph
  before the call. The edges left are the ones that had no end at \<open>v\<close>, and \<open>v\<close> is gone.
  \<open>unsplit(eIn, eOut)\<close>, when it passes its assertions, calls (after the index resets of
  the adjacency arrays) \<open>edgeDeleted(eOut)\<close> and then \<open>nodeDeleted(u)\<close> on every observer
  in that order, before \<open>eOut\<close> and \<open>u\<close> leave the lists but after the merge: the
  observers see \<open>eOut\<close> in the list of edges with its own record unchanged and \<open>u\<close>
  in the list of nodes with its rotation unchanged, but the target-side entry of \<open>eOut\<close>
  already belongs to \<open>eIn\<close> and is the twin of the source-side entry of \<open>eIn\<close>, and
  \<open>eIn\<close> no longer ends at \<open>u\<close>: neither \<open>eOut\<close> nor \<open>u\<close> is intact. The registry is
  in registration order: \<open>registerStructure\<close> appends.
\<close>

theorem deletion_notifications:
  assumes "wf g"
  shows
  "(e \<in> set (edges g) \<longrightarrow>
      calls (delEdge e g) = calls g
        @ deletionRound (m_regStructures g) (\<lambda>obs. edgeDeleted obs e) (snapshot g)
      \<and> edgeIntact (snapshot g) e \<and> e \<notin> set (edges (delEdge e g)))
   \<and> (v \<in> set (nodes g) \<longrightarrow>
        (\<exists>g' rounds. delNode v g = Some g'
           \<and> calls g' = calls g
               @ deletionRound (m_regStructures g) (\<lambda>obs. nodeDeleted obs v) (snapshot g)
               @ edgeRounds (m_regStructures g) rounds
           \<and> nodeIntact (snapshot g) v
           \<and> map fst rounds = uniq (map (theEdge g) (adjEdges (nodeMem g v)))
           \<and> distinct (map fst rounds)
           \<and> set (map fst rounds) = {x \<in> set (edges g). \<not> awayFrom g v x}
           \<and> (\<forall>(e', s) \<in> set rounds. edgeIntact s e' \<and> nodeIntact s v
                  \<and> s_nodes s = nodes g \<and> s_edgeMem s = edgeMem g \<and> s_adjMem s = adjMem g)
           \<and> edges g' = filter (awayFrom g v) (edges g)
           \<and> v \<notin> set (nodes g')))
   \<and> (eIn \<in> set (edges g) \<and> eOut \<in> set (edges g) \<and> unsplit eIn eOut g = Inr h \<longrightarrow>
        (\<exists>pre. calls h = calls g @ pre
             @ deletionRound (m_regStructures g) (\<lambda>obs. edgeDeleted obs eOut) (mergedView eIn eOut g)
             @ deletionRound (m_regStructures g) (\<lambda>obs. nodeDeleted obs (target g eIn))
                 (mergedView eIn eOut g)
           \<and> list_all (\<lambda>c. isResetIndexCall (fst c)) pre)
        \<and> s_nodes (mergedView eIn eOut g) = nodes g \<and> s_edges (mergedView eIn eOut g) = edges g
        \<and> s_nodeMem (mergedView eIn eOut g) = nodeMem g
        \<and> s_edgeMem (mergedView eIn eOut g) = edgeMem h
        \<and> s_adjMem (mergedView eIn eOut g) = adjMem h
        \<and> s_edgeMem (mergedView eIn eOut g) eOut = edgeMem g eOut
        \<and> target g eIn \<noteq> m_tgt (s_edgeMem (mergedView eIn eOut g) eIn)
        \<and> m_edge (s_adjMem (mergedView eIn eOut g) (adjTarget g eOut)) = eIn
        \<and> m_twin (s_adjMem (mergedView eIn eOut g) (adjTarget g eOut)) = adjSource g eIn
        \<and> \<not> edgeIntact (mergedView eIn eOut g) eOut
        \<and> \<not> nodeIntact (mergedView eIn eOut g) (target g eIn)
        \<and> eOut \<notin> set (edges h) \<and> target g eIn \<notin> set (nodes h))
   \<and> m_regStructures (registerStructure obs g) = m_regStructures g @ [obs]"
proof (intro conjI impI)
  assume e: "e \<in> set (edges g)"
  show "calls (delEdge e g) = calls g
        @ deletionRound (m_regStructures g) (\<lambda>obs. edgeDeleted obs e) (snapshot g)"
    by (rule delEdge_calls)
  show "edgeIntact (snapshot g) e" using assms e by (rule wf_edgeIntact)
  have "distinct (edges g)" using assms by (simp add: wf_def)
  then show "e \<notin> set (edges (delEdge e g))" by (simp add: del_def)
next
  assume "v \<in> set (nodes g)"
  from delNode_notifies[OF assms this]
  show "\<exists>g' rounds. delNode v g = Some g'
           \<and> calls g' = calls g
               @ deletionRound (m_regStructures g) (\<lambda>obs. nodeDeleted obs v) (snapshot g)
               @ edgeRounds (m_regStructures g) rounds
           \<and> nodeIntact (snapshot g) v
           \<and> map fst rounds = uniq (map (theEdge g) (adjEdges (nodeMem g v)))
           \<and> distinct (map fst rounds)
           \<and> set (map fst rounds) = {x \<in> set (edges g). \<not> awayFrom g v x}
           \<and> (\<forall>(e', s) \<in> set rounds. edgeIntact s e' \<and> nodeIntact s v
                  \<and> s_nodes s = nodes g \<and> s_edgeMem s = edgeMem g \<and> s_adjMem s = adjMem g)
           \<and> edges g' = filter (awayFrom g v) (edges g)
           \<and> v \<notin> set (nodes g')" .
next
  show "m_regStructures (registerStructure obs g) = m_regStructures g @ [obs]" by simp
next
  assume a: "eIn \<in> set (edges g) \<and> eOut \<in> set (edges g) \<and> unsplit eIn eOut g = Inr h"
  then have i: "eIn \<in> set (edges g)" and o: "eOut \<in> set (edges g)"
    and u: "unsplit eIn eOut g = Inr h" by simp_all
  note n = unsplit_notifies[OF assms i o u]
  from n show "\<exists>pre. calls h = calls g @ pre
             @ deletionRound (m_regStructures g) (\<lambda>obs. edgeDeleted obs eOut) (mergedView eIn eOut g)
             @ deletionRound (m_regStructures g) (\<lambda>obs. nodeDeleted obs (target g eIn))
                 (mergedView eIn eOut g)
           \<and> list_all (\<lambda>c. isResetIndexCall (fst c)) pre" by blast
  from n show "s_nodes (mergedView eIn eOut g) = nodes g" by blast
  from n show "s_edges (mergedView eIn eOut g) = edges g" by blast
  from n show "s_nodeMem (mergedView eIn eOut g) = nodeMem g" by blast
  from n show "s_edgeMem (mergedView eIn eOut g) = edgeMem h" by blast
  from n show "s_adjMem (mergedView eIn eOut g) = adjMem h" by blast
  from n show "s_edgeMem (mergedView eIn eOut g) eOut = edgeMem g eOut" by blast
  from n show "target g eIn \<noteq> m_tgt (s_edgeMem (mergedView eIn eOut g) eIn)" by blast
  from n show "m_edge (s_adjMem (mergedView eIn eOut g) (adjTarget g eOut)) = eIn" by blast
  from n show "m_twin (s_adjMem (mergedView eIn eOut g) (adjTarget g eOut)) = adjSource g eIn" by blast
  from n show "\<not> edgeIntact (mergedView eIn eOut g) eOut" by blast
  from n show "\<not> nodeIntact (mergedView eIn eOut g) (target g eIn)" by blast
  from n show "eOut \<notin> set (edges h)" by blast
  from n show "target g eIn \<notin> set (nodes h)" by blast
qed

lemma pathGraph_unsplit:
  "unsplit (Suc 0) 2 pathGraph = Inr (unsplit_merge (Suc 0) 2 pathGraph)"
  by (simp add: unsplit_def Let_def isSelfLoop_def source_def target_def indeg_def outdeg_def
      pathGraph_sel)

theorem deletion_notifications_witness:
  "wf pathGraph
   \<and> calls (delEdge (Suc 0) pathGraph) = calls pathGraph
        @ [(edgeDeleted 5 (Suc 0), snapshot pathGraph), (edgeDeleted 7 (Suc 0), snapshot pathGraph)]
   \<and> edgeIntact (snapshot pathGraph) (Suc 0)
   \<and> (\<exists>g' s1 s2. delNode 3 pathGraph = Some g' \<and> 3 \<notin> set (nodes g') \<and> edges g' = []
         \<and> calls g' = calls pathGraph
             @ [(nodeDeleted 5 3, snapshot pathGraph), (nodeDeleted 7 3, snapshot pathGraph),
                (edgeDeleted 5 (Suc 0), s1), (edgeDeleted 7 (Suc 0), s1),
                (edgeDeleted 5 2, s2), (edgeDeleted 7 2, s2)]
         \<and> edgeIntact s1 (Suc 0) \<and> nodeIntact s1 3 \<and> edgeIntact s2 2 \<and> nodeIntact s2 3)
   \<and> (\<exists>h pre. unsplit (Suc 0) 2 pathGraph = Inr h
         \<and> calls h = calls pathGraph @ pre
             @ [(edgeDeleted 5 2, mergedView (Suc 0) 2 pathGraph),
                (edgeDeleted 7 2, mergedView (Suc 0) 2 pathGraph),
                (nodeDeleted 5 3, mergedView (Suc 0) 2 pathGraph),
                (nodeDeleted 7 3, mergedView (Suc 0) 2 pathGraph)]
         \<and> 2 \<in> set (s_edges (mergedView (Suc 0) 2 pathGraph))
         \<and> \<not> edgeIntact (mergedView (Suc 0) 2 pathGraph) 2
         \<and> 2 \<notin> set (edges h) \<and> 3 \<notin> set (nodes h))"
proof -
  note u = pathGraph_unsplit
  have m: "Suc 0 \<in> set (edges pathGraph)" "2 \<in> set (edges pathGraph)" "3 \<in> set (nodes pathGraph)"
    by (simp_all add: pathGraph_sel)
  note t = deletion_notifications[OF wf_pathGraph, of "Suc 0" 3 "Suc 0" 2
      "unsplit_merge (Suc 0) 2 pathGraph" 0]
  have tg: "target pathGraph (Suc 0) = 3" by (simp add: target_def pathGraph_sel)
  from t m have a: "calls (delEdge (Suc 0) pathGraph) = calls pathGraph
        @ [(edgeDeleted 5 (Suc 0), snapshot pathGraph), (edgeDeleted 7 (Suc 0), snapshot pathGraph)]"
    "edgeIntact (snapshot pathGraph) (Suc 0)"
    by (simp_all add: deletionRound_def pathGraph_sel)
  from t m obtain g' rounds where b: "delNode 3 pathGraph = Some g'" "3 \<notin> set (nodes g')"
    "calls g' = calls pathGraph
       @ deletionRound (m_regStructures pathGraph) (\<lambda>obs. nodeDeleted obs 3) (snapshot pathGraph)
       @ edgeRounds (m_regStructures pathGraph) rounds"
    "map fst rounds = uniq (map (theEdge pathGraph) (adjEdges (nodeMem pathGraph 3)))"
    "\<forall>(e', s) \<in> set rounds. edgeIntact s e' \<and> nodeIntact s 3
                  \<and> s_nodes s = nodes pathGraph \<and> s_edgeMem s = edgeMem pathGraph
                  \<and> s_adjMem s = adjMem pathGraph"
    "edges g' = filter (awayFrom pathGraph 3) (edges pathGraph)"
    by blast
  have "map fst rounds = [Suc 0, 2]"
    unfolding b(4) by (simp add: uniq_def theEdge_def pathGraph_sel)
  then obtain s1 s2 where rs: "rounds = [(Suc 0, s1), (2, s2)]"
    by (auto simp: map_eq_Cons_conv)
  have b5: "edgeIntact s1 (Suc 0) \<and> nodeIntact s1 3 \<and> edgeIntact s2 2 \<and> nodeIntact s2 3"
    using b(5) unfolding rs by simp
  have b6: "edges g' = []" unfolding b(6) by (simp add: awayFrom_def pathGraph_sel)
  have b3: "calls g' = calls pathGraph
             @ [(nodeDeleted 5 3, snapshot pathGraph), (nodeDeleted 7 3, snapshot pathGraph),
                (edgeDeleted 5 (Suc 0), s1), (edgeDeleted 7 (Suc 0), s1),
                (edgeDeleted 5 2, s2), (edgeDeleted 7 2, s2)]"
    unfolding b(3) rs by (simp add: deletionRound_def edgeRounds_def pathGraph_sel)
  from t m u obtain pre where c:
    "calls (unsplit_merge (Suc 0) 2 pathGraph) = calls pathGraph @ pre
       @ deletionRound (m_regStructures pathGraph) (\<lambda>obs. edgeDeleted obs 2) (mergedView (Suc 0) 2 pathGraph)
       @ deletionRound (m_regStructures pathGraph) (\<lambda>obs. nodeDeleted obs (target pathGraph (Suc 0)))
           (mergedView (Suc 0) 2 pathGraph)"
    "s_edges (mergedView (Suc 0) 2 pathGraph) = edges pathGraph"
    "\<not> edgeIntact (mergedView (Suc 0) 2 pathGraph) 2"
    "2 \<notin> set (edges (unsplit_merge (Suc 0) 2 pathGraph))"
    "target pathGraph (Suc 0) \<notin> set (nodes (unsplit_merge (Suc 0) 2 pathGraph))"
    by blast
  have c1: "calls (unsplit_merge (Suc 0) 2 pathGraph) = calls pathGraph @ pre
             @ [(edgeDeleted 5 2, mergedView (Suc 0) 2 pathGraph),
                (edgeDeleted 7 2, mergedView (Suc 0) 2 pathGraph),
                (nodeDeleted 5 3, mergedView (Suc 0) 2 pathGraph),
                (nodeDeleted 7 3, mergedView (Suc 0) 2 pathGraph)]"
    unfolding c(1) tg by (simp add: deletionRound_def pathGraph_sel)
  have c2: "2 \<in> set (s_edges (mergedView (Suc 0) 2 pathGraph))"
    unfolding c(2) by (simp add: pathGraph_sel)
  from wf_pathGraph a b(1,2) b6 b3 b5 u c1 c2 c(3,4) c(5)[unfolded tg]
  show ?thesis by blast
qed

text \<open>
  On the path \<open>1 \<rightarrow> 3 \<rightarrow> 2\<close>, \<open>unsplit\<close> of its two edges tells the observers that the
  second edge and the middle node are deleted when the target-side entry of the second
  edge already belongs to the first edge, which already ends at node 2.
\<close>

theorem unsplit_notifies_after_merge:
  "wf pathGraph \<and> edges pathGraph = [Suc 0, 2]
   \<and> target pathGraph (Suc 0) = 3 \<and> source pathGraph 2 = 3 \<and> adjTarget pathGraph 2 = 2
   \<and> theEdge pathGraph 2 = 2
   \<and> (\<exists>h pre. unsplit (Suc 0) 2 pathGraph = Inr h
         \<and> calls h = calls pathGraph @ pre
             @ [(edgeDeleted 5 2, mergedView (Suc 0) 2 pathGraph),
                (edgeDeleted 7 2, mergedView (Suc 0) 2 pathGraph),
                (nodeDeleted 5 3, mergedView (Suc 0) 2 pathGraph),
                (nodeDeleted 7 3, mergedView (Suc 0) 2 pathGraph)])
   \<and> m_adjTgt (s_edgeMem (mergedView (Suc 0) 2 pathGraph) 2) = 2
   \<and> m_edge (s_adjMem (mergedView (Suc 0) 2 pathGraph) 2) = Suc 0
   \<and> m_twin (s_adjMem (mergedView (Suc 0) 2 pathGraph) 2) = Suc 0
   \<and> m_tgt (s_edgeMem (mergedView (Suc 0) 2 pathGraph) (Suc 0)) = 2
   \<and> \<not> edgeIntact (mergedView (Suc 0) 2 pathGraph) 2
   \<and> \<not> nodeIntact (mergedView (Suc 0) 2 pathGraph) 3"
proof -
  have m: "Suc 0 \<in> set (edges pathGraph)" "2 \<in> set (edges pathGraph)"
    by (simp_all add: pathGraph_sel)
  note n = unsplit_notifies[OF wf_pathGraph m pathGraph_unsplit]
  have tg: "target pathGraph (Suc 0) = 3" "source pathGraph 2 = 3" "adjTarget pathGraph 2 = 2"
    "theEdge pathGraph 2 = 2" "adjSource pathGraph (Suc 0) = Suc 0"
    by (simp_all add: target_def source_def adjTarget_def adjSource_def theEdge_def pathGraph_sel)
  from n obtain pre where c:
    "calls (unsplit_merge (Suc 0) 2 pathGraph) = calls pathGraph @ pre
       @ deletionRound (m_regStructures pathGraph) (\<lambda>obs. edgeDeleted obs 2) (mergedView (Suc 0) 2 pathGraph)
       @ deletionRound (m_regStructures pathGraph) (\<lambda>obs. nodeDeleted obs (target pathGraph (Suc 0)))
           (mergedView (Suc 0) 2 pathGraph)"
    by blast
  have c1: "calls (unsplit_merge (Suc 0) 2 pathGraph) = calls pathGraph @ pre
             @ [(edgeDeleted 5 2, mergedView (Suc 0) 2 pathGraph),
                (edgeDeleted 7 2, mergedView (Suc 0) 2 pathGraph),
                (nodeDeleted 5 3, mergedView (Suc 0) 2 pathGraph),
                (nodeDeleted 7 3, mergedView (Suc 0) 2 pathGraph)]"
    unfolding c tg by (simp add: deletionRound_def pathGraph_sel)
  from n have e: "s_edgeMem (mergedView (Suc 0) 2 pathGraph) 2 = edgeMem pathGraph 2"
    "m_edge (s_adjMem (mergedView (Suc 0) 2 pathGraph) 2) = Suc 0"
    "m_twin (s_adjMem (mergedView (Suc 0) 2 pathGraph) 2) = Suc 0"
    "\<not> edgeIntact (mergedView (Suc 0) 2 pathGraph) 2"
    "\<not> nodeIntact (mergedView (Suc 0) 2 pathGraph) 3"
    unfolding tg by blast+
  have t: "m_tgt (s_edgeMem (mergedView (Suc 0) 2 pathGraph) (Suc 0)) = 2"
    by (simp add: mergedView_def pathGraph_sel)
  have a: "m_adjTgt (s_edgeMem (mergedView (Suc 0) 2 pathGraph) 2) = 2"
    unfolding e(1) by (simp add: pathGraph_sel)
  have l: "edges pathGraph = [Suc 0, 2]" by (simp add: pathGraph_sel)
  from wf_pathGraph l tg(1-4) pathGraph_unsplit c1 a e(2-5) t show ?thesis by blast
qed

section \<open>The tables under every operation\<close>

lemma fold_reinit:
  "fold (reinit k n) as g =
     g\<lparr> arrMem := (arrMem g)(k := setSizes n as (arrMem g k)),
        calls := calls g @ map (\<lambda>a. (reinitCall k a n, snapshot g)) as \<rparr>"
proof (induction as arbitrary: g)
  case Nil
  show ?case by (simp add: setSizes_def)
next
  case (Cons a as)
  have *: "setSizes n as ((arrMem g k)(a := (arrMem g k a)\<lparr>a_size := n\<rparr>))
             = setSizes n (a # as) (arrMem g k)"
    by (auto simp: setSizes_def fun_eq_iff)
  have "fold (reinit k n) (a # as) g = fold (reinit k n) as (reinit k n a g)"
    by simp
  also have "\<dots> = (reinit k n a g)\<lparr>
        arrMem := (arrMem (reinit k n a g))(k := setSizes n as (arrMem (reinit k n a g) k)),
        calls := calls (reinit k n a g)
                   @ map (\<lambda>b. (reinitCall k b n, snapshot (reinit k n a g))) as \<rparr>"
    by (rule Cons.IH)
  also have "\<dots> = g\<lparr> arrMem := (arrMem g)(k := setSizes n (a # as) (arrMem g k)),
        calls := calls g @ map (\<lambda>b. (reinitCall k b n, snapshot g)) (a # as) \<rparr>"
    using * by (simp add: reinit_def notify_def updArray_def)
  finally show ?case .
qed

lemma reinitArrays_tables:
  "tables (reinitArrays g) =
     ((m_nodeIdCount g, m_edgeIdCount g, m_nodeArrayTableSize g, m_edgeArrayTableSize g),
      (m_regNodeArrays g, m_regEdgeArrays g, m_regAdjArrays g),
      (arrMem g)(NodeArrayKind := setSizes (m_nodeArrayTableSize g) (m_regNodeArrays g)
                                    (arrMem g NodeArrayKind),
                 EdgeArrayKind := setSizes (m_edgeArrayTableSize g) (m_regEdgeArrays g)
                                    (arrMem g EdgeArrayKind),
                 AdjEntryArrayKind := setSizes (shl1 (m_edgeArrayTableSize g)) (m_regAdjArrays g)
                                    (arrMem g AdjEntryArrayKind)))"
  by (simp add: reinitArrays_def Let_def fold_reinit tables_def)

lemma tableBounds_tables:
  "tableBounds g \<longleftrightarrow> (case tables g of ((nc, ec, nt, et), (rn, re, ra), am) \<Rightarrow>
     tableCovers MIN_NODE_TABLE_SIZE nc nt \<and> tableCovers MIN_EDGE_TABLE_SIZE ec et
     \<and> list_all (\<lambda>a. nt \<le> a_size (am NodeArrayKind a)) rn
     \<and> list_all (\<lambda>a. et \<le> a_size (am EdgeArrayKind a)) re
     \<and> list_all (\<lambda>a. 2 * et \<le> a_size (am AdjEntryArrayKind a)) ra)"
  by (simp add: tableBounds_def tables_def)

lemma sizesInRange_tables:
  "sizesInRange g \<longleftrightarrow> (case tables g of ((nc, ec, nt, et), r, am) \<Rightarrow>
      nt \<le> 536870912 \<and> et \<le> 536870912)"
  by (simp add: sizesInRange_def tables_def)

lemma tb_frame:
  "tables g' = tables g \<Longrightarrow> tableBounds g \<and> sizesInRange g \<Longrightarrow> tableBounds g' \<and> sizesInRange g'"
  by (simp add: tableBounds_tables sizesInRange_tables)

lemma pow2_double_le:
  assumes "t = (2::int) ^ k" "t < 536870912"
  shows "2 * t \<le> 536870912" "\<exists>j. 2 * t = (2::int) ^ j"
proof -
  have e: "(536870912::int) = 2 ^ 29" by simp
  have "(2::int) ^ k < 2 ^ 29" using assms by simp
  then have "k < 29" by (simp only: power_strict_increasing_iff)
  then have "Suc k \<le> 29" by simp
  then have "(2::int) ^ Suc k \<le> 2 ^ 29" by (intro power_increasing) simp_all
  then show "2 * t \<le> 536870912" using assms(1) by simp
  have "2 * t = 2 ^ Suc k" using assms(1) by simp
  then show "\<exists>j. 2 * t = (2::int) ^ j" by blast
qed

lemma pow2_le:
  assumes "t = (2::int) ^ k" "t < 1073741824"
  shows "t \<le> 536870912"
proof -
  have "(2::int) ^ k < 2 ^ 30" using assms by simp
  then have "k < 30" by (simp only: power_strict_increasing_iff)
  then have "k \<le> 29" by simp
  then have "(2::int) ^ k \<le> 2 ^ 29" by (intro power_increasing) simp_all
  then show ?thesis using assms(1) by simp
qed

lemma covers_pos: "tableCovers 16 c t \<Longrightarrow> 0 < t"
  by (auto simp: tableCovers_def)

lemma list_all_setSizes:
  "list_all (\<lambda>a. P (a_size (setSizes n as m a))) as \<longleftrightarrow> (as = [] \<or> P n)"
  by (cases as) (auto simp: list_all_iff setSizes_def)

lemma tb_nodeStep:
  assumes "tableBounds g" "m_nodeIdCount g < 536870912" "sizesInRange g"
    and "tables g' = tables (fst (newNode g))"
  shows "tableBounds g' \<and> sizesInRange g'"
proof -
  have f: "tableCovers 16 (m_nodeIdCount g) (m_nodeArrayTableSize g)"
    using assms(1) by (simp add: tableBounds_def MIN_NODE_TABLE_SIZE_def)
  then have c0: "0 \<le> m_nodeIdCount g" by (simp add: tableCovers_def)
  have r: "m_nodeIdCount g < 536870912" "m_edgeArrayTableSize g \<le> 536870912"
    "m_nodeArrayTableSize g \<le> 536870912"
    using assms(2,3) by (simp_all add: sizesInRange_def)
  then have i: "int32 (m_nodeIdCount g + 1) = m_nodeIdCount g + 1"
    using c0 by (simp add: int32_id)
  show ?thesis
  proof (cases "m_nodeIdCount g = m_nodeArrayTableSize g")
    case True
    then have s: "shl1 (m_nodeArrayTableSize g) = 2 * m_nodeArrayTableSize g"
      using c0 r by (simp add: shl1_id)
    from f obtain k where k: "m_nodeArrayTableSize g = 2 ^ k" by (auto simp: tableCovers_def)
    from pow2_double_le[OF k] True r
    have d: "2 * m_nodeArrayTableSize g \<le> 536870912" "\<exists>j. 2 * m_nodeArrayTableSize g = 2 ^ j"
      by simp_all
    have "tableCovers 16 (m_nodeArrayTableSize g + 1) (2 * m_nodeArrayTableSize g)"
      using f True d(2) by (simp add: tableCovers_def)
    then show ?thesis
      using assms(1) True i s d(1) r
      by (simp add: tableBounds_tables sizesInRange_tables assms(4) newNode_tables)
         (simp add: tables_def tableBounds_def list_all_setSizes MIN_NODE_TABLE_SIZE_def)
  next
    case False
    then have "tableCovers 16 (m_nodeIdCount g + 1) (m_nodeArrayTableSize g)"
      using f by (auto simp: tableCovers_def)
    then show ?thesis
      using assms(1) i False r
      by (simp add: tableBounds_tables sizesInRange_tables assms(4) newNode_tables)
         (simp add: tables_def tableBounds_def MIN_NODE_TABLE_SIZE_def)
  qed
qed

lemma list_all_setSizes_other:
  "list_all (\<lambda>a. P (a_size (setSizes n as m a))) bs \<longleftrightarrow>
   list_all (\<lambda>a. if a \<in> set as then P n else P (a_size (m a))) bs"
  by (auto simp: list_all_iff setSizes_def)

lemma tb_edgeStep:
  assumes "tableBounds g" "m_edgeIdCount g < 536870912" "sizesInRange g"
    and "tables g' = tables (fst (createEdgeElement v w a1 a2 g))"
  shows "tableBounds g' \<and> sizesInRange g'"
proof -
  have f: "tableCovers 16 (m_edgeIdCount g) (m_edgeArrayTableSize g)"
    using assms(1) by (simp add: tableBounds_def MIN_EDGE_TABLE_SIZE_def)
  then have c0: "0 \<le> m_edgeIdCount g" by (simp add: tableCovers_def)
  have r: "m_edgeIdCount g < 536870912" "m_edgeArrayTableSize g \<le> 536870912"
    "m_nodeArrayTableSize g \<le> 536870912"
    using assms(2,3) by (simp_all add: sizesInRange_def)
  then have i: "int32 (m_edgeIdCount g + 1) = m_edgeIdCount g + 1"
    using c0 by (simp add: int32_id)
  show ?thesis
  proof (cases "m_edgeIdCount g = m_edgeArrayTableSize g")
    case True
    then have s: "shl1 (m_edgeArrayTableSize g) = 2 * m_edgeArrayTableSize g"
        "shl1 (2 * m_edgeArrayTableSize g) = 4 * m_edgeArrayTableSize g"
      using c0 r by (simp_all add: shl1_id)
    from f obtain k where k: "m_edgeArrayTableSize g = 2 ^ k" by (auto simp: tableCovers_def)
    from pow2_double_le[OF k] True r
    have d: "2 * m_edgeArrayTableSize g \<le> 536870912" "\<exists>j. 2 * m_edgeArrayTableSize g = 2 ^ j"
      by simp_all
    have "tableCovers 16 (m_edgeArrayTableSize g + 1) (2 * m_edgeArrayTableSize g)"
      using f True d(2) by (simp add: tableCovers_def)
    then show ?thesis
      using assms(1) True i s d(1) r
      by (simp add: tableBounds_tables sizesInRange_tables assms(4) createEdgeElement_tables)
         (simp add: tables_def tableBounds_def list_all_setSizes MIN_EDGE_TABLE_SIZE_def)
  next
    case False
    then have "tableCovers 16 (m_edgeIdCount g + 1) (m_edgeArrayTableSize g)"
      using f by (auto simp: tableCovers_def)
    then show ?thesis
      using assms(1) i False r
      by (simp add: tableBounds_tables sizesInRange_tables assms(4) createEdgeElement_tables)
         (simp add: tables_def tableBounds_def MIN_EDGE_TABLE_SIZE_def)
  qed
qed

lemma nextPower2_pow2:
  assumes "t = 2 ^ k" "0 < t" "0 \<le> i" "i < 536870912" "t \<le> 536870912"
  shows "\<exists>r. nextPower2 t i = Some r \<and> (\<exists>j. r = 2 ^ j) \<and> i < r \<and> t \<le> r \<and> r \<le> 536870912
           \<and> (r = t \<or> r div 2 \<le> i)"
proof -
  from nextPower2_returns[of t i] assms obtain r j where
    r: "nextPower2 t i = Some r" "i < r" "r = t * 2 ^ j" "j = 0 \<or> r \<le> 2 * i" by auto
  have p: "r = 2 ^ (k + j)" using r(3) assms(1) by (simp add: power_add)
  have "r \<le> 536870912"
  proof (cases "j = 0")
    case True
    then show ?thesis using r(3) assms(5) by simp
  next
    case False
    with r(4) assms(4) have "r < 1073741824" by simp
    from pow2_le[OF p this] show ?thesis .
  qed
  moreover have "t \<le> r" using r(3) assms(2) by simp
  moreover have "r = t \<or> r div 2 \<le> i" using r(3,4) by (cases "j = 0") auto
  ultimately show ?thesis using r(1,2) p by blast
qed

lemma tb_newNode_index:
  assumes "tableBounds g" "inRange g" "i < 536870912" "newNode_index i g = Some (g', v)"
  shows "tableBounds g' \<and> sizesInRange g'"
proof -
  have f: "tableCovers 16 (m_nodeIdCount g) (m_nodeArrayTableSize g)"
    using assms(1) by (simp add: tableBounds_def MIN_NODE_TABLE_SIZE_def)
  then have c0: "0 \<le> m_nodeIdCount g" by (simp add: tableCovers_def)
  have r: "m_nodeArrayTableSize g \<le> 536870912" "sizesInRange g"
    using assms(2) by (simp_all add: inRange_def sizesInRange_def)
  note t = newNode_index_tables[OF assms(4)]
  show ?thesis
  proof (cases "i < m_nodeIdCount g")
    case True
    with t have "tables g' = tables g" by simp
    from tb_frame[OF this] assms(1) r show ?thesis by simp
  next
    case False
    then have i: "int32 (i + 1) = i + 1" using c0 assms(3) by (simp add: int32_id)
    show ?thesis
    proof (cases "i < m_nodeArrayTableSize g")
      case True
      have "tableCovers 16 (i + 1) (m_nodeArrayTableSize g)"
        using f False True by (auto simp: tableCovers_def)
      then show ?thesis using assms(1) t False True i r
        by (simp add: tableBounds_tables sizesInRange_tables)
           (simp add: tableBounds_def tables_def MIN_NODE_TABLE_SIZE_def)
    next
      case ge: False
      from f obtain k where k: "m_nodeArrayTableSize g = 2 ^ k" by (auto simp: tableCovers_def)
      from nextPower2_pow2[OF k covers_pos[OF f] _ assms(3) r(1)] False c0
      obtain rr where rr: "nextPower2 (m_nodeArrayTableSize g) i = Some rr" "\<exists>j. rr = 2 ^ j"
        "i < rr" "m_nodeArrayTableSize g \<le> rr" "rr \<le> 536870912" by auto
      have "tableCovers 16 (i + 1) rr"
        using f rr False c0 by (auto simp: tableCovers_def)
      then show ?thesis using assms(1) t False ge i rr(1,5) r
        by (simp add: tableBounds_tables sizesInRange_tables growNodeTable_eq)
           (simp add: tableBounds_def tables_def list_all_setSizes MIN_NODE_TABLE_SIZE_def)
    qed
  qed
qed

lemma tb_newEdge_index:
  assumes "tableBounds g" "inRange g" "i < 536870912" "newEdge_index v w i g = Some (g', e)"
  shows "tableBounds g' \<and> sizesInRange g'"
proof -
  have f: "tableCovers 16 (m_edgeIdCount g) (m_edgeArrayTableSize g)"
    using assms(1) by (simp add: tableBounds_def MIN_EDGE_TABLE_SIZE_def)
  then have c0: "0 \<le> m_edgeIdCount g" by (simp add: tableCovers_def)
  have r: "m_edgeArrayTableSize g \<le> 536870912" "sizesInRange g"
    using assms(2) by (simp_all add: inRange_def sizesInRange_def)
  note t = newEdge_index_tables[OF assms(4)]
  show ?thesis
  proof (cases "i < m_edgeIdCount g")
    case True
    with t have "tables g' = tables g" by simp
    from tb_frame[OF this] assms(1) r show ?thesis by simp
  next
    case False
    then have i: "int32 (i + 1) = i + 1" using c0 assms(3) by (simp add: int32_id)
    show ?thesis
    proof (cases "i < m_edgeArrayTableSize g")
      case True
      have "tableCovers 16 (i + 1) (m_edgeArrayTableSize g)"
        using f False True by (auto simp: tableCovers_def)
      then show ?thesis using assms(1) t False True i r
        by (simp add: tableBounds_tables sizesInRange_tables)
           (simp add: tableBounds_def tables_def MIN_EDGE_TABLE_SIZE_def)
    next
      case ge: False
      from f obtain k where k: "m_edgeArrayTableSize g = 2 ^ k" by (auto simp: tableCovers_def)
      from nextPower2_pow2[OF k covers_pos[OF f] _ assms(3) r(1)] False c0
      obtain rr where rr: "nextPower2 (m_edgeArrayTableSize g) i = Some rr" "\<exists>j. rr = 2 ^ j"
        "i < rr" "m_edgeArrayTableSize g \<le> rr" "rr \<le> 536870912" by auto
      have s: "shl1 rr = 2 * rr" using rr(3,5) False c0 by (simp add: shl1_id)
      have "tableCovers 16 (i + 1) rr"
        using f rr False c0 by (auto simp: tableCovers_def)
      then show ?thesis using assms(1) t False ge i rr(1,5) r s
        by (simp add: tableBounds_tables sizesInRange_tables growEdgeTable_eq)
           (simp add: tableBounds_def tables_def list_all_setSizes MIN_EDGE_TABLE_SIZE_def)
    qed
  qed
qed

lemma tb_register:
  assumes "tableBounds g" "inRange g"
  shows "tableBounds (registerNodeArray a g) \<and> sizesInRange (registerNodeArray a g)"
    "tableBounds (registerEdgeArray a g) \<and> sizesInRange (registerEdgeArray a g)"
    "tableBounds (registerAdjArray a g) \<and> sizesInRange (registerAdjArray a g)"
    "tableBounds (registerStructure obs g) \<and> sizesInRange (registerStructure obs g)"
proof -
  have "tableCovers 16 (m_edgeIdCount g) (m_edgeArrayTableSize g)"
    using assms(1) by (simp add: tableBounds_def MIN_EDGE_TABLE_SIZE_def)
  from covers_pos[OF this] assms(2)
  have s: "shl1 (m_edgeArrayTableSize g) = 2 * m_edgeArrayTableSize g"
    by (simp add: shl1_id inRange_def sizesInRange_def)
  have r: "sizesInRange g" using assms(2) by (simp add: inRange_def)
  show "tableBounds (registerNodeArray a g) \<and> sizesInRange (registerNodeArray a g)"
    using assms(1) r
    by (auto simp: tableBounds_def sizesInRange_def registerNodeArray_def updArray_def list_all_iff)
  show "tableBounds (registerEdgeArray a g) \<and> sizesInRange (registerEdgeArray a g)"
    using assms(1) r
    by (auto simp: tableBounds_def sizesInRange_def registerEdgeArray_def updArray_def list_all_iff)
  show "tableBounds (registerAdjArray a g) \<and> sizesInRange (registerAdjArray a g)"
    using assms(1) r s
    by (auto simp: tableBounds_def sizesInRange_def registerAdjArray_def updArray_def list_all_iff)
  show "tableBounds (registerStructure obs g) \<and> sizesInRange (registerStructure obs g)"
    using assms(1) r
    by (auto simp: tableBounds_def sizesInRange_def registerStructure_def)
qed

lemma tableBounds_emptyGraph: "tableBounds emptyGraph \<and> inRange emptyGraph"
proof -
  have "(16::int) = 2 ^ 4" by simp
  then have "\<exists>k. (16::int) = 2 ^ k" by blast
  then show ?thesis
    by (simp add: tableBounds_def tableCovers_def emptyGraph_def MIN_NODE_TABLE_SIZE_def
        MIN_EDGE_TABLE_SIZE_def inRange_def sizesInRange_def)
qed

lemma inRangeD:
  "inRange g \<Longrightarrow> m_nodeIdCount g < 536870912 \<and> m_edgeIdCount g < 536870912 \<and> sizesInRange g"
  by (simp add: inRange_def)

lemma tb_runOp:
  assumes "tableBounds g" "inRange g" "indexInRange op" "runOp op g = Some g'"
  shows "tableBounds g' \<and> sizesInRange g'"
proof -
  have r: "tableBounds g \<and> sizesInRange g" using assms(1,2) by (simp add: inRange_def)
  note d = inRangeD[OF assms(2)]
  show ?thesis
  proof (cases op)
    case NewNode
    then show ?thesis using assms(4) tb_nodeStep[OF assms(1) _ _ refl] d by auto
  next
    case (NewNodeIndex i)
    then show ?thesis using assms tb_newNode_index[OF assms(1,2)] by auto
  next
    case (NewEdge v w)
    then show ?thesis using assms(4) tb_edgeStep[OF assms(1) _ _ newEdge_tables] d by auto
  next
    case (NewEdgeIndex v w i)
    then show ?thesis using assms tb_newEdge_index[OF assms(1,2)] by auto
  next
    case (DelNode v)
    then show ?thesis using assms(4) r tb_frame[OF tables_delNode] by auto
  next
    case (DelEdge e)
    then show ?thesis using assms r tb_frame[OF tables_delEdge] by auto
  next
    case (Split e)
    have 1: "tableBounds (fst (newNode g)) \<and> sizesInRange (fst (newNode g))"
      using tb_nodeStep[OF assms(1) _ _ refl] d by auto
    have "tableBounds (fst (split e g)) \<and> sizesInRange (fst (split e g))"
      using tb_edgeStep[OF _ _ _ split_tables] 1 d by simp
    then show ?thesis using assms(4) Split by auto
  next
    case (Unsplit eIn eOut)
    then show ?thesis using assms(4) r tb_frame[OF tables_unsplit]
      by (auto split: sum.splits)
  next
    case (ReverseEdge e)
    then show ?thesis using assms r tb_frame[OF tables_reverseEdge] by auto
  next
    case (HideEdge e)
    then show ?thesis using assms r tb_frame[OF tables_hideEdge] by auto
  next
    case (RestoreEdge e)
    then show ?thesis using assms r tb_frame[OF tables_restoreEdge] by auto
  next
    case RestoreAllEdges
    then show ?thesis using assms r tb_frame[OF tables_restoreAllEdges] by auto
  next
    case (MoveSource e a d)
    then show ?thesis using assms r tb_frame[OF tables_moveSource] by auto
  next
    case (MoveTarget e a d)
    then show ?thesis using assms r tb_frame[OF tables_moveTarget] by auto
  next
    case (Contract e)
    then show ?thesis using assms(4) r tb_frame[OF tables_contract] by auto
  next
    case (RegisterNodeArray a)
    then show ?thesis using assms tb_register(1)[of g a] by auto
  next
    case (RegisterEdgeArray a)
    then show ?thesis using assms tb_register(2)[of g a] by auto
  next
    case (RegisterAdjArray a)
    then show ?thesis using assms tb_register(3)[of g a] by auto
  next
    case (RegisterStructure obs)
    then show ?thesis using assms tb_register(4)[of g obs] by auto
  qed
qed

lemma tables_fold_updNode [simp]:
  "tables (fold (\<lambda>v. updNode v (f v)) vs g) = tables g"
  by (induction vs arbitrary: g) simp_all

lemma tables_fold_reverseEdge: "tables (fold reverseEdge es g) = tables g"
  by (induction es arbitrary: g) simp_all

lemma tables_moveAdjBack [simp]: "tables (moveAdjBack adj old v g) = tables g"
  by (simp add: moveAdjBack_def Let_def)

lemma tables_positional [simp]:
  "tables (moveTarget_node e v g) = tables g"
  "tables (moveSource_node e v g) = tables g"
  "tables (moveAdj adj w g) = tables g"
  "tables (reverseAllEdges g) = tables g"
  "tables (reverseAdjEdges g) = tables g"
  "tables (reinitStructures g) = tables g"
  "tables (unregisterStructure it g) = tables g"
  by (simp_all add: moveTarget_node_def moveSource_node_def moveAdj_def reverseAllEdges_def
      reverseAdjEdges_def reinitStructures_def unregisterStructure_def Let_def
      tables_fold_reverseEdge)

lemma tables_move: "move e a1 d1 a2 d2 g = Inr g' \<Longrightarrow> tables g' = tables g"
  by (auto simp: move_def Let_def split: if_splits)

lemma tables_unsplit_node: "unsplit_node u g = Some (Inr g') \<Longrightarrow> tables g' = tables g"
  by (auto simp: unsplit_node_def Let_def split: if_splits dest: tables_unsplit)

lemma tables_splitNode_loop:
  assumes "splitNode_loop adjStartLeft w adj g = Some g'"
  shows "tables g' = tables g"
proof (rule splitNode_loop.raw_induct[where P = "\<lambda>adjStartLeft w adj g g'. tables g' = tables g",
        OF _ assms])
  fix f adjStartLeft w adj g y
  assume IH: "\<And>adjStartLeft w adj g y. f adjStartLeft w adj g = Some y \<Longrightarrow> tables y = tables g"
    and step: "(if adj = adjStartLeft then Some g
      else if adj = nullptr then None
      else
        (let adjSucc = cyclicSucc g adj
         in f adjStartLeft w adjSucc (moveAdj adj w g))) = Some y"
  from step show "tables y = tables g"
    by (auto simp: Let_def split: if_splits dest!: IH)
qed

lemma newEdge_adj_tables:
  "tables (fst (newEdge_adj adjStart adjEnd dir g)) = tables (fst (createEdgeElement v w a1 a2 g))"
  apply (simp add: newEdge_adj_def Let_def case_prod_beta setEdgeOfPair_def)
  apply (rule createEdgeElement_tables_cong)
  apply simp
  done

lemma newEdge_nodeAdj_tables:
  "tables (fst (newEdge_nodeAdj x adjEnd g)) = tables (fst (createEdgeElement v w a1 a2 g))"
  apply (simp add: newEdge_nodeAdj_def Let_def case_prod_beta setEdgeOfPair_def)
  apply (rule createEdgeElement_tables_cong)
  apply simp
  done

lemma newEdge_adjNode_tables:
  "tables (fst (newEdge_adjNode adjStart x g)) = tables (fst (createEdgeElement v w a1 a2 g))"
  apply (simp add: newEdge_adjNode_def Let_def case_prod_beta setEdgeOfPair_def)
  apply (rule createEdgeElement_tables_cong)
  apply simp
  done

lemma splitNode_tables:
  assumes "splitNode adjStartLeft adjStartRight g = Some (Inr (g', x))"
  shows "tables g' = tables (fst (createEdgeElement v w a1 a2 (fst (newNode g))))"
proof -
  from assms obtain g2 where
    l: "splitNode_loop adjStartLeft (snd (newNode g)) adjStartRight (fst (newNode g)) = Some g2"
    and g': "g' = fst (newEdge_adj adjStartLeft adjStartRight before g2)"
    by (auto simp: splitNode_def Let_def case_prod_beta split: if_splits option.splits)
  have "tables g' = tables (fst (createEdgeElement v w a1 a2 g2))"
    unfolding g' by (rule newEdge_adj_tables)
  also have "\<dots> = tables (fst (createEdgeElement v w a1 a2 (fst (newNode g))))"
    by (rule createEdgeElement_tables_cong) (rule tables_splitNode_loop[OF l])
  finally show ?thesis .
qed

lemma list_all_delAt: "list_all P xs \<Longrightarrow> list_all P (delAt i xs)"
  by (auto simp: delAt_def list_all_iff dest: in_set_takeD in_set_dropD)

lemma list_all_update: "list_all P xs \<Longrightarrow> P a \<Longrightarrow> list_all P (xs[i := a])"
  by (auto simp: list_all_iff dest: set_update_subset_insert[THEN subsetD])

lemma tb_registry:
  assumes "tableBounds g \<and> sizesInRange g"
  shows "tableBounds (unregisterNodeArray it g) \<and> sizesInRange (unregisterNodeArray it g)"
    "tableBounds (unregisterEdgeArray it g) \<and> sizesInRange (unregisterEdgeArray it g)"
    "tableBounds (unregisterAdjArray it g) \<and> sizesInRange (unregisterAdjArray it g)"
    "m_nodeArrayTableSize g \<le> a_size (arrMem g NodeArrayKind a) \<Longrightarrow>
       tableBounds (moveRegisterNodeArray it a g) \<and> sizesInRange (moveRegisterNodeArray it a g)"
    "m_edgeArrayTableSize g \<le> a_size (arrMem g EdgeArrayKind a) \<Longrightarrow>
       tableBounds (moveRegisterEdgeArray it a g) \<and> sizesInRange (moveRegisterEdgeArray it a g)"
    "2 * m_edgeArrayTableSize g \<le> a_size (arrMem g AdjEntryArrayKind a) \<Longrightarrow>
       tableBounds (moveRegisterAdjArray it a g) \<and> sizesInRange (moveRegisterAdjArray it a g)"
  using assms
  by (simp_all add: tableBounds_def sizesInRange_def unregisterNodeArray_def
      unregisterEdgeArray_def unregisterAdjArray_def moveRegisterNodeArray_def
      moveRegisterEdgeArray_def moveRegisterAdjArray_def list_all_delAt list_all_update)

lemma tb_resetEdgeIdCount:
  assumes "tableBounds g \<and> sizesInRange g" "- 1 \<le> maxId" "maxId < m_edgeIdCount g"
    "resetEdgeIdCount checks maxId g = Inr g'"
  shows "tableBounds g' \<and> sizesInRange g'"
proof -
  have c: "m_edgeIdCount g \<le> m_edgeArrayTableSize g" "m_edgeArrayTableSize g \<le> 536870912"
    using assms(1) by (simp_all add: tableBounds_def tableCovers_def sizesInRange_def)
  then have i: "int32 (maxId + 1) = maxId + 1" using assms(2,3) by (simp add: int32_id)
  have g': "g' = g\<lparr> m_edgeIdCount := maxId + 1 \<rparr>"
    using assms(4) i by (auto simp: resetEdgeIdCount_def Let_def split: if_splits)
  show ?thesis
    using assms(1,2,3) c unfolding g'
    by (simp add: tableBounds_def tableCovers_def sizesInRange_def)
qed

lemma reinitArrays_fields [simp]:
  "m_nodeIdCount (reinitArrays g) = m_nodeIdCount g"
  "m_edgeIdCount (reinitArrays g) = m_edgeIdCount g"
  "m_nodeArrayTableSize (reinitArrays g) = m_nodeArrayTableSize g"
  "m_edgeArrayTableSize (reinitArrays g) = m_edgeArrayTableSize g"
  using reinitArrays_tables[of g] by (simp_all add: tables_def)

lemma tb_reinitArrays:
  assumes "tableCovers MIN_NODE_TABLE_SIZE (m_nodeIdCount g) (m_nodeArrayTableSize g)"
    "tableCovers MIN_EDGE_TABLE_SIZE (m_edgeIdCount g) (m_edgeArrayTableSize g)"
    "sizesInRange g"
  shows "tableBounds (reinitArrays g) \<and> sizesInRange (reinitArrays g)"
proof -
  have "0 < m_edgeArrayTableSize g"
    using assms(2) by (auto simp: tableCovers_def MIN_EDGE_TABLE_SIZE_def)
  with assms(3) have s: "shl1 (m_edgeArrayTableSize g) = 2 * m_edgeArrayTableSize g"
    by (simp add: shl1_id sizesInRange_def)
  show ?thesis
    using assms s
    by (simp add: tableBounds_tables[of "reinitArrays g"] reinitArrays_tables list_all_setSizes
         sizesInRange_def)
qed

lemma dropElements_tables:
  "tables (dropElements g) = tables (g\<lparr> m_nodeIdCount := 0, m_edgeIdCount := 0 \<rparr>)"
  by (simp add: dropElements_def Let_def fold_clear_rotations tables_def)

lemma pow2_16: "\<exists>k. (16::int) = 2 ^ k"
proof -
  have "(16::int) = 2 ^ 4" by simp
  then show ?thesis by blast
qed

lemma dropElements_fields [simp]:
  "m_nodeIdCount (dropElements g) = 0" "m_edgeIdCount (dropElements g) = 0"
  "m_nodeArrayTableSize (dropElements g) = m_nodeArrayTableSize g"
  "m_edgeArrayTableSize (dropElements g) = m_edgeArrayTableSize g"
  "m_regNodeArrays (dropElements g) = m_regNodeArrays g"
  "m_regEdgeArrays (dropElements g) = m_regEdgeArrays g"
  "m_regAdjArrays (dropElements g) = m_regAdjArrays g"
  "arrMem (dropElements g) = arrMem g"
  "nodes (dropElements g) = []" "edges (dropElements g) = []"
  by (simp_all add: dropElements_def Let_def fold_clear_rotations)

lemma clear_fields:
  "m_nodeIdCount (clear g) = 0" "m_edgeIdCount (clear g) = 0"
  "m_nodeArrayTableSize (clear g) = MIN_NODE_TABLE_SIZE"
  "m_edgeArrayTableSize (clear g) = m_edgeArrayTableSize g"
  "m_regNodeArrays (clear g) = m_regNodeArrays g"
  "m_regEdgeArrays (clear g) = m_regEdgeArrays g"
  "m_regAdjArrays (clear g) = m_regAdjArrays g"
  "nodes (clear g) = []" "edges (clear g) = []"
  by (simp_all add: clear_def Let_def reinitArrays_def fold_reinit fold_notify)

lemma tb_clear:
  assumes "tableBounds g \<and> sizesInRange g"
  shows "tableBounds (clear g) \<and> sizesInRange (clear g)"
proof -
  let ?g3 = "(dropElements (fold (\<lambda>obs. notify (cleared obs)) (m_regStructures g) g))
               \<lparr> m_nodeArrayTableSize := MIN_NODE_TABLE_SIZE \<rparr>"
  have c: "clear g = reinitArrays ?g3" by (simp add: clear_def Let_def)
  show ?thesis
    unfolding c
    apply (rule tb_reinitArrays)
    using assms pow2_16
      apply (simp_all add: tableCovers_def tableBounds_def sizesInRange_def
        MIN_NODE_TABLE_SIZE_def fold_notify)
    done
qed

lemma tb_destroyGraph:
  assumes "tableBounds g \<and> sizesInRange g"
  shows "tableBounds (destroyGraph g) \<and> sizesInRange (destroyGraph g)"
proof -
  note t = tables_restoreAllEdges[of g]
  have "tables (destroyGraph g) =
      ((m_nodeIdCount g, m_edgeIdCount g, m_nodeArrayTableSize g, m_edgeArrayTableSize g),
       (m_regNodeArrays g, m_regEdgeArrays g, m_regAdjArrays g),
       (arrMem g)(NodeArrayKind := detachAll (m_regNodeArrays g) (arrMem g NodeArrayKind),
                  EdgeArrayKind := detachAll (m_regEdgeArrays g) (arrMem g EdgeArrayKind),
                  AdjEntryArrayKind := detachAll (m_regAdjArrays g) (arrMem g AdjEntryArrayKind)))"
    using t
    by (simp add: destroyGraph_def Let_def fold_disconnect fold_clear_rotations tables_def)
  then show ?thesis
    using assms
    by (simp add: tableBounds_tables[of "destroyGraph g"] sizesInRange_tables[of "destroyGraph g"])
       (simp add: tableBounds_def sizesInRange_def detachAll_def list_all_iff)
qed

lemma tables_count_cong:
  "tables a = tables b \<Longrightarrow> tables (a\<lparr> m_nodeIdCount := d \<rparr>) = tables (b\<lparr> m_nodeIdCount := d \<rparr>)"
  "tables a = tables b \<Longrightarrow> tables (a\<lparr> m_edgeIdCount := d \<rparr>) = tables (b\<lparr> m_edgeIdCount := d \<rparr>)"
  by (simp_all add: tables_def)

lemma fold_bumpN:
  fixes f :: "'a \<Rightarrow> Graph \<times> 'c \<Rightarrow> Graph \<times> 'c"
  assumes step: "\<And>x s. tables (fst (f x s)) =
      tables ((fst s)\<lparr> m_nodeIdCount := int32 (m_nodeIdCount (fst s) + 1) \<rparr>)"
  shows "0 \<le> m_nodeIdCount (fst s) \<Longrightarrow> m_nodeIdCount (fst s) + int (length xs) < 2147483648 \<Longrightarrow>
     tables (fst (fold f xs s)) =
       tables ((fst s)\<lparr> m_nodeIdCount := m_nodeIdCount (fst s) + int (length xs) \<rparr>)"
proof (induction xs arbitrary: s)
  case Nil
  show ?case by simp
next
  case (Cons x xs)
  have i: "int32 (m_nodeIdCount (fst s) + 1) = m_nodeIdCount (fst s) + 1"
    using Cons.prems by (simp add: int32_id)
  have t: "tables (fst (f x s)) = tables ((fst s)\<lparr> m_nodeIdCount := m_nodeIdCount (fst s) + 1 \<rparr>)"
    using step[of x s] i by simp
  then have c: "m_nodeIdCount (fst (f x s)) = m_nodeIdCount (fst s) + 1"
    by (simp add: tables_def)
  have "tables (fst (fold f xs (f x s))) =
      tables ((fst (f x s))\<lparr> m_nodeIdCount := m_nodeIdCount (fst (f x s)) + int (length xs) \<rparr>)"
    using Cons.prems c by (intro Cons.IH) simp_all
  also have "\<dots> = tables ((fst s)\<lparr> m_nodeIdCount := m_nodeIdCount (fst s) + 1,
                       m_nodeIdCount := m_nodeIdCount (fst (f x s)) + int (length xs) \<rparr>)"
    by (rule tables_count_cong(1)[OF t])
  finally show ?case using c by (simp add: add.assoc)
qed

lemma fold_bumpE:
  fixes f :: "'a \<Rightarrow> Graph \<times> 'c \<Rightarrow> Graph \<times> 'c"
  assumes step: "\<And>x s. tables (fst (f x s)) =
      tables ((fst s)\<lparr> m_edgeIdCount := int32 (m_edgeIdCount (fst s) + 1) \<rparr>)"
  shows "0 \<le> m_edgeIdCount (fst s) \<Longrightarrow> m_edgeIdCount (fst s) + int (length xs) < 2147483648 \<Longrightarrow>
     tables (fst (fold f xs s)) =
       tables ((fst s)\<lparr> m_edgeIdCount := m_edgeIdCount (fst s) + int (length xs) \<rparr>)"
proof (induction xs arbitrary: s)
  case Nil
  show ?case by simp
next
  case (Cons x xs)
  have i: "int32 (m_edgeIdCount (fst s) + 1) = m_edgeIdCount (fst s) + 1"
    using Cons.prems by (simp add: int32_id)
  have t: "tables (fst (f x s)) = tables ((fst s)\<lparr> m_edgeIdCount := m_edgeIdCount (fst s) + 1 \<rparr>)"
    using step[of x s] i by simp
  then have c: "m_edgeIdCount (fst (f x s)) = m_edgeIdCount (fst s) + 1"
    by (simp add: tables_def)
  have "tables (fst (fold f xs (f x s))) =
      tables ((fst (f x s))\<lparr> m_edgeIdCount := m_edgeIdCount (fst (f x s)) + int (length xs) \<rparr>)"
    using Cons.prems c by (intro Cons.IH) simp_all
  also have "\<dots> = tables ((fst s)\<lparr> m_edgeIdCount := m_edgeIdCount (fst s) + 1,
                       m_edgeIdCount := m_edgeIdCount (fst (f x s)) + int (length xs) \<rparr>)"
    by (rule tables_count_cong(2)[OF t])
  finally show ?case using c by (simp add: add.assoc)
qed

lemma foldOpt_frame:
  assumes step: "\<And>x s s'. f x s = Some s' \<Longrightarrow> T s' = T s"
  shows "foldOpt f xs s = Some s' \<Longrightarrow> T s' = T s"
proof (induction xs arbitrary: s)
  case Nil
  then show ?case by simp
next
  case (Cons x xs)
  then obtain s1 where s1: "f x s = Some s1" "foldOpt f xs s1 = Some s'"
    by (auto split: option.splits)
  from Cons.IH[OF s1(2)] step[OF s1(1)] show ?case by simp
qed

lemma pureNewNode_tables:
  "tables (fst (pureNewNode g)) = tables (g\<lparr> m_nodeIdCount := int32 (m_nodeIdCount g + 1) \<rparr>)"
  by (simp add: pureNewNode_def allocNode_def Let_def linkNode_eq tables_def)

lemma tables_allocAdjOf [simp]: "tables (fst (allocAdjOf e i g)) = tables g"
  by (simp add: allocAdjOf_def Let_def)

lemma node_steps:
  "tables (fst (copy_node G vG s)) =
      tables ((fst s)\<lparr> m_nodeIdCount := int32 (m_nodeIdCount (fst s) + 1) \<rparr>)"
  "tables (fst (cc_node G vG s)) =
      tables ((fst s)\<lparr> m_nodeIdCount := int32 (m_nodeIdCount (fst s) + 1) \<rparr>)"
  "tables (fst (byNodes_node G vG s3)) =
      tables ((fst s3)\<lparr> m_nodeIdCount := int32 (m_nodeIdCount (fst s3) + 1) \<rparr>)"
  "tables (fst (byActive_node G act vG s3)) =
      tables ((fst s3)\<lparr> m_nodeIdCount := int32 (m_nodeIdCount (fst s3) + 1) \<rparr>)"
  by (simp_all add: copy_node_def cc_node_def byNodes_node_def byActive_node_def Let_def
      case_prod_beta pureNewNode_tables)
     (simp_all add: allocNode_def tables_def Let_def)

lemma edge_steps:
  "tables (fst (copy_edge G mn e s)) =
      tables ((fst s)\<lparr> m_edgeIdCount := int32 (m_edgeIdCount (fst s) + 1) \<rparr>)"
  "tables (fst (cc_edge G mn e s)) =
      tables ((fst s)\<lparr> m_edgeIdCount := int32 (m_edgeIdCount (fst s) + 1) \<rparr>)"
  "tables (fst (byActive_edge G mn e s)) =
      tables ((fst s)\<lparr> m_edgeIdCount := int32 (m_edgeIdCount (fst s) + 1) \<rparr>)"
  by (simp_all add: copy_edge_def cc_edge_def byActive_edge_def Let_def case_prod_beta)
     (simp_all add: allocEdge_def allocAdjOf_def allocAdj_def updAdj_def updEdge_def updNode_def
       setEdgeOfPair_def tables_def Let_def)

lemma copy_adj_frame: "copy_adj G me v adjG s = Some s' \<Longrightarrow> tables (fst s') = tables (fst s)"
  by (auto simp: copy_adj_def Let_def case_prod_beta split: if_splits)

lemma copy_rotation_frame:
  "copy_rotation G mn me vG s = Some s' \<Longrightarrow> tables (fst s') = tables (fst s)"
  unfolding copy_rotation_def
  by (rule foldOpt_frame[where T = "\<lambda>s. tables (fst s)"]) (rule copy_adj_frame)

lemma cc_adj_frame: "cc_adj G me v adjG g = Some g' \<Longrightarrow> tables g' = tables g"
  by (auto simp: cc_adj_def Let_def split: if_splits)

lemma cc_rotation_frame: "cc_rotation G mn me vG g = Some g' \<Longrightarrow> tables g' = tables g"
  unfolding cc_rotation_def
  by (rule foldOpt_frame[where T = tables]) (rule cc_adj_frame)

lemma byNodes_collected:
  "snd (snd (fold (byNodes_node G) xs s)) = snd (snd s) @ concat (map (evenEdges G) xs)"
  by (induction xs arbitrary: s) (simp_all add: byNodes_node_def Let_def case_prod_beta)

lemma byActive_collected:
  "snd (snd (fold (byActive_node G act) xs s)) = snd (snd s) @ concat (map (activeEvenEdges G act) xs)"
  by (induction xs arbitrary: s) (simp_all add: byActive_node_def Let_def case_prod_beta)

lemma exceeds_covers: "tableExceeds m c t \<Longrightarrow> tableCovers m c t"
  by (auto simp: tableExceeds_def tableCovers_def)

lemma nextPower2_exceeds:
  assumes "0 \<le> c" "c < 536870912"
  shows "\<exists>r. nextPower2 16 c = Some r \<and> tableExceeds 16 c r \<and> r \<le> 536870912"
proof -
  have "(16::int) = 2 ^ 4" by simp
  from nextPower2_pow2[OF this _ assms] obtain r where
    "nextPower2 16 c = Some r" "\<exists>j. r = 2 ^ j" "c < r" "16 \<le> r" "r \<le> 536870912"
    "r = 16 \<or> r div 2 \<le> c" by auto
  then show ?thesis using assms(1) by (auto simp: tableExceeds_def)
qed

lemma setTableSizes_returns:
  assumes "0 \<le> m_nodeIdCount g" "m_nodeIdCount g < 536870912"
    "0 \<le> m_edgeIdCount g" "m_edgeIdCount g < 536870912"
  shows "\<exists>g'. setTableSizes g = Some g'
     \<and> tableExceeds MIN_NODE_TABLE_SIZE (m_nodeIdCount g') (m_nodeArrayTableSize g')
     \<and> tableExceeds MIN_EDGE_TABLE_SIZE (m_edgeIdCount g') (m_edgeArrayTableSize g')
     \<and> sizesInRange g'
     \<and> m_regNodeArrays g' = m_regNodeArrays g \<and> m_regEdgeArrays g' = m_regEdgeArrays g
     \<and> m_regAdjArrays g' = m_regAdjArrays g"
proof -
  from nextPower2_exceeds[OF assms(1,2)] obtain n where
    n: "nextPower2 16 (m_nodeIdCount g) = Some n" "tableExceeds 16 (m_nodeIdCount g) n"
       "n \<le> 536870912" by auto
  from nextPower2_exceeds[OF assms(3,4)] obtain m where
    m: "nextPower2 16 (m_edgeIdCount g) = Some m" "tableExceeds 16 (m_edgeIdCount g) m"
       "m \<le> 536870912" by auto
  show ?thesis
    using n m
    by (simp add: setTableSizes_def MIN_NODE_TABLE_SIZE_def MIN_EDGE_TABLE_SIZE_def sizesInRange_def)
qed

lemma tb_sized:
  assumes "tableExceeds MIN_NODE_TABLE_SIZE (m_nodeIdCount g) (m_nodeArrayTableSize g)"
    "tableExceeds MIN_EDGE_TABLE_SIZE (m_edgeIdCount g) (m_edgeArrayTableSize g)"
    "sizesInRange g"
  shows "tableBounds (reinitArrays g) \<and> sizesInRange (reinitArrays g)
     \<and> tableExceeds MIN_NODE_TABLE_SIZE (m_nodeIdCount (reinitArrays g))
         (m_nodeArrayTableSize (reinitArrays g))
     \<and> tableExceeds MIN_EDGE_TABLE_SIZE (m_edgeIdCount (reinitArrays g))
         (m_edgeArrayTableSize (reinitArrays g))"
  using tb_reinitArrays[OF exceeds_covers[OF assms(1)] exceeds_covers[OF assms(2)] assms(3)] assms
  by simp

lemma tb_sized_noArrays:
  assumes "tableExceeds MIN_NODE_TABLE_SIZE (m_nodeIdCount g) (m_nodeArrayTableSize g)"
    "tableExceeds MIN_EDGE_TABLE_SIZE (m_edgeIdCount g) (m_edgeArrayTableSize g)"
    "m_regNodeArrays g = []" "m_regEdgeArrays g = []" "m_regAdjArrays g = []"
  shows "tableBounds g"
  using exceeds_covers[OF assms(1)] exceeds_covers[OF assms(2)] assms(3-5)
  by (simp add: tableBounds_def)

lemma copy_tables:
  assumes "copy G mn me g = Some (g', mn', me')"
    and "0 \<le> m_nodeIdCount g" "0 \<le> m_edgeIdCount g"
    and "m_nodeIdCount g + int (length (nodes G)) < 2147483648"
    and "m_edgeIdCount g + int (length (edges G)) < 2147483648"
  shows "\<exists>n m. tables g' = tables (g\<lparr> m_nodeIdCount := n, m_edgeIdCount := m \<rparr>)
     \<and> m_nodeIdCount g \<le> n \<and> n \<le> m_nodeIdCount g + int (length (nodes G))
     \<and> m_edgeIdCount g \<le> m \<and> m \<le> m_edgeIdCount g + int (length (edges G))"
proof (cases "nodes G = []")
  case True
  with assms(1) have "g' = g" by (simp add: copy_def)
  then show ?thesis
    by (intro exI[of _ "m_nodeIdCount g"] exI[of _ "m_edgeIdCount g"]) simp
next
  case False
  define s1 where "s1 = fold (copy_node G) (nodes G) (g, (\<lambda>_. nullptr))"
  have t1: "tables (fst s1) = tables (g\<lparr> m_nodeIdCount := m_nodeIdCount g + int (length (nodes G)) \<rparr>)"
    unfolding s1_def using fold_bumpN[where f = "copy_node G" and s = "(g, (\<lambda>_. nullptr))",
        OF node_steps(1)] assms(2,4) by simp
  show ?thesis
  proof (cases "edges G = []")
    case True
    with assms(1) False have "g' = fst s1"
      by (auto simp: copy_def Let_def case_prod_beta s1_def)
    with t1 show ?thesis
      by (intro exI[of _ "m_nodeIdCount g + int (length (nodes G))"] exI[of _ "m_edgeIdCount g"])
         (simp add: tables_def)
  next
    case e: False
    define s2 where "s2 = fold (copy_edge G (snd s1)) (edges G) (fst s1, (\<lambda>_. nullptr))"
    have c1: "m_edgeIdCount (fst s1) = m_edgeIdCount g" using t1 by (simp add: tables_def)
    have t2: "tables (fst s2) =
        tables ((fst s1)\<lparr> m_edgeIdCount := m_edgeIdCount g + int (length (edges G)) \<rparr>)"
      unfolding s2_def
      using fold_bumpE[where f = "copy_edge G (snd s1)" and s = "(fst s1, (\<lambda>_. nullptr))",
          OF edge_steps(1)] assms(3,5) c1 by simp
    from assms(1) False e obtain mark where
      "foldOpt (copy_rotation G (snd s1) (snd s2)) (nodes G) (fst s2, (\<lambda>_. False)) = Some (g', mark)"
      by (auto simp: copy_def Let_def case_prod_beta s1_def s2_def split: option.splits)
    from foldOpt_frame[where T = "\<lambda>s. tables (fst s)", OF copy_rotation_frame this]
    have "tables g' = tables (fst s2)" by simp
    with t1 t2 show ?thesis
      by (intro exI[of _ "m_nodeIdCount g + int (length (nodes G))"]
            exI[of _ "m_edgeIdCount g + int (length (edges G))"])
         (simp add: tables_def)
  qed
qed

lemma sized_after:
  assumes "tables g2 = tables (g1\<lparr> m_nodeIdCount := n, m_edgeIdCount := m \<rparr>)"
    "0 \<le> n" "n < 536870912" "0 \<le> m" "m < 536870912"
  shows "\<exists>g3. setTableSizes g2 = Some g3
     \<and> tableExceeds MIN_NODE_TABLE_SIZE (m_nodeIdCount g3) (m_nodeArrayTableSize g3)
     \<and> tableExceeds MIN_EDGE_TABLE_SIZE (m_edgeIdCount g3) (m_edgeArrayTableSize g3)
     \<and> sizesInRange g3
     \<and> m_regNodeArrays g3 = m_regNodeArrays g1 \<and> m_regEdgeArrays g3 = m_regEdgeArrays g1
     \<and> m_regAdjArrays g3 = m_regAdjArrays g1"
proof -
  have c: "m_nodeIdCount g2 = n" "m_edgeIdCount g2 = m"
    "m_regNodeArrays g2 = m_regNodeArrays g1" "m_regEdgeArrays g2 = m_regEdgeArrays g1"
    "m_regAdjArrays g2 = m_regAdjArrays g1"
    using assms(1) by (simp_all add: tables_def)
  from setTableSizes_returns[of g2] assms(2-5) c show ?thesis by simp
qed

lemma tb_assign:
  assumes "assign src mn me g = Some (g', mn', me')"
    and "case src of None \<Rightarrow> True
         | Some G \<Rightarrow> int (length (nodes G)) < 536870912 \<and> int (length (edges G)) < 536870912"
  shows "tableBounds g' \<and> sizesInRange g'
     \<and> tableExceeds MIN_NODE_TABLE_SIZE (m_nodeIdCount g') (m_nodeArrayTableSize g')
     \<and> tableExceeds MIN_EDGE_TABLE_SIZE (m_edgeIdCount g') (m_edgeArrayTableSize g')"
proof -
  from assms(1) obtain g2 g3 where
    g2: "(case src of None \<Rightarrow> Some (clear g, mn, me) | Some G \<Rightarrow> copy G mn me (clear g))
           = Some (g2, mn', me')"
    and g3: "setTableSizes g2 = Some g3" and g': "g' = reinitArrays g3"
    by (auto simp: assign_def Let_def split: option.splits)
  have "\<exists>n m. tables g2 = tables ((clear g)\<lparr> m_nodeIdCount := n, m_edgeIdCount := m \<rparr>)
      \<and> 0 \<le> n \<and> n < 536870912 \<and> 0 \<le> m \<and> m < 536870912"
  proof (cases src)
    case None
    with g2 have "g2 = clear g" by simp
    then show ?thesis
      by (intro exI[of _ 0]) (simp add: tables_def clear_fields)
  next
    case (Some G)
    with g2 have "copy G mn me (clear g) = Some (g2, mn', me')" by simp
    from copy_tables[OF this] assms(2) Some obtain n m where
      "tables g2 = tables ((clear g)\<lparr> m_nodeIdCount := n, m_edgeIdCount := m \<rparr>)"
      "0 \<le> n" "n \<le> int (length (nodes G))" "0 \<le> m" "m \<le> int (length (edges G))"
      by (auto simp: clear_fields)
    with assms(2) Some show ?thesis
      by (intro exI[of _ n] exI[of _ m]) simp
  qed
  then obtain n m where
    t: "tables g2 = tables ((clear g)\<lparr> m_nodeIdCount := n, m_edgeIdCount := m \<rparr>)"
    and b: "0 \<le> n" "n < 536870912" "0 \<le> m" "m < 536870912" by blast
  from sized_after[OF t b] g3 show ?thesis
    unfolding g' by (intro tb_sized) simp_all
qed

lemma tb_construct:
  assumes "construct src mn me g = Some (g', mn', me')"
    and "noArrays g" "tableBounds g" "inRange g"
    and "case src of None \<Rightarrow> True
         | Some G \<Rightarrow> m_nodeIdCount g + int (length (nodes G)) < 536870912
                   \<and> m_edgeIdCount g + int (length (edges G)) < 536870912"
  shows "tableBounds g' \<and> sizesInRange g'
     \<and> tableExceeds MIN_NODE_TABLE_SIZE (m_nodeIdCount g') (m_nodeArrayTableSize g')
     \<and> tableExceeds MIN_EDGE_TABLE_SIZE (m_edgeIdCount g') (m_edgeArrayTableSize g')"
proof -
  have c0: "0 \<le> m_nodeIdCount g" "0 \<le> m_edgeIdCount g"
    "m_nodeIdCount g < 536870912" "m_edgeIdCount g < 536870912"
    using assms(3,4) by (simp_all add: tableBounds_def tableCovers_def inRange_def)
  from assms(1) obtain g1 where
    g1: "(case src of None \<Rightarrow> if nodes g = [] then Some (g, mn, me) else None
          | Some G \<Rightarrow> copy G mn me g) = Some (g1, mn', me')"
    and g': "setTableSizes g1 = Some g'"
    by (auto simp: construct_def Let_def split: option.splits)
  have "\<exists>n m. tables g1 = tables (g\<lparr> m_nodeIdCount := n, m_edgeIdCount := m \<rparr>)
      \<and> 0 \<le> n \<and> n < 536870912 \<and> 0 \<le> m \<and> m < 536870912"
  proof (cases src)
    case None
    with g1 have "g1 = g" by (simp split: if_splits)
    then show ?thesis using c0
      by (intro exI[of _ "m_nodeIdCount g"] exI[of _ "m_edgeIdCount g"]) simp
  next
    case (Some G)
    with g1 have "copy G mn me g = Some (g1, mn', me')" by simp
    from copy_tables[OF this c0(1,2)] assms(5) Some c0 obtain n m where
      "tables g1 = tables (g\<lparr> m_nodeIdCount := n, m_edgeIdCount := m \<rparr>)"
      "m_nodeIdCount g \<le> n" "n \<le> m_nodeIdCount g + int (length (nodes G))"
      "m_edgeIdCount g \<le> m" "m \<le> m_edgeIdCount g + int (length (edges G))"
      by auto
    with assms(5) Some c0 show ?thesis
      by (intro exI[of _ n] exI[of _ m]) simp
  qed
  then obtain n m where
    t: "tables g1 = tables (g\<lparr> m_nodeIdCount := n, m_edgeIdCount := m \<rparr>)"
    and b: "0 \<le> n" "n < 536870912" "0 \<le> m" "m < 536870912" by blast
  from sized_after[OF t b] g' assms(2) show ?thesis
    by (auto simp: noArrays_def intro: tb_sized_noArrays)
qed

lemma tb_constructInitByCC:
  assumes "constructInitByCC G info cc mn me g = Some (g', mn', me')"
    and "case ccRange (m_nodes info) (m_startNode info) cc of
           None \<Rightarrow> True | Some vs \<Rightarrow> int (length vs) < 536870912"
    and "case ccRange (m_edges info) (m_startEdge info) cc of
           None \<Rightarrow> True | Some es \<Rightarrow> int (length es) < 536870912"
  shows "tableBounds g' \<and> sizesInRange g'
     \<and> tableExceeds MIN_NODE_TABLE_SIZE (m_nodeIdCount g') (m_nodeArrayTableSize g')
     \<and> tableExceeds MIN_EDGE_TABLE_SIZE (m_edgeIdCount g') (m_edgeArrayTableSize g')"
proof -
  from assms(1) obtain vs es where
    vs: "ccRange (m_nodes info) (m_startNode info) cc = Some vs"
    and es: "ccRange (m_edges info) (m_startEdge info) cc = Some es"
    by (auto simp: constructInitByCC_def Let_def split: option.splits)
  define s1 where "s1 = fold (cc_node G) vs (dropElements g, mn)"
  define s2 where "s2 = fold (cc_edge G (snd s1)) es (fst s1, me)"
  from assms(1) vs es obtain g3 g4 where
    g3: "foldOpt (cc_rotation G (snd s1) (snd s2)) vs (fst s2) = Some g3"
    and g4: "setTableSizes g3 = Some g4" and g': "g' = reinitArrays g4"
    by (auto simp: constructInitByCC_def Let_def case_prod_beta s1_def s2_def split: option.splits)
  have lv: "int (length vs) < 536870912" "int (length es) < 536870912"
    using assms(2,3) vs es by simp_all
  have t1: "tables (fst s1) = tables ((dropElements g)\<lparr> m_nodeIdCount := int (length vs) \<rparr>)"
    unfolding s1_def
    using fold_bumpN[where f = "cc_node G" and s = "(dropElements g, mn)" and xs = vs,
        OF node_steps(2)] lv by simp
  then have c1: "m_edgeIdCount (fst s1) = 0" by (simp add: tables_def)
  have t2: "tables (fst s2) = tables ((fst s1)\<lparr> m_edgeIdCount := int (length es) \<rparr>)"
    unfolding s2_def
    using fold_bumpE[where f = "cc_edge G (snd s1)" and s = "(fst s1, me)" and xs = es,
        OF edge_steps(2)] lv c1 by simp
  have "tables g3 = tables (fst s2)"
    by (rule foldOpt_frame[where T = tables, OF cc_rotation_frame g3])
  with t1 t2 have t: "tables g3 = tables ((dropElements g)\<lparr> m_nodeIdCount := int (length vs),
      m_edgeIdCount := int (length es) \<rparr>)"
    by (simp add: tables_def)
  from sized_after[OF t _ lv(1) _ lv(2)] g4 show ?thesis
    unfolding g' by (intro tb_sized) simp_all
qed

lemma tb_constructInitByNodes:
  assumes "constructInitByNodes G nodeList mn me g = Some (g', mn', me')"
    and "int (length nodeList) < 536870912"
    and "int (length (concat (map (evenEdges G) nodeList))) < 536870912"
  shows "tableBounds g' \<and> sizesInRange g'
     \<and> tableExceeds MIN_NODE_TABLE_SIZE (m_nodeIdCount g') (m_nodeArrayTableSize g')
     \<and> tableExceeds MIN_EDGE_TABLE_SIZE (m_edgeIdCount g') (m_edgeArrayTableSize g')"
proof -
  let ?g0 = "(dropElements g)\<lparr> m_nodeArrayTableSize := MIN_NODE_TABLE_SIZE \<rparr>"
  define s1 where "s1 = fold (byNodes_node G) nodeList (?g0, mn, [])"
  define es where "es = concat (map (evenEdges G) nodeList)"
  have col: "snd (snd s1) = es" unfolding s1_def es_def by (simp add: byNodes_collected)
  define s2 where "s2 = fold (copy_edge G (fst (snd s1))) es (fst s1, me)"
  from assms(1) obtain g3 mark g4 where
    g3: "foldOpt (copy_rotation G (fst (snd s1)) (snd s2)) nodeList (fst s2, (\<lambda>_. False))
           = Some (g3, mark)"
    and g4: "setTableSizes g3 = Some g4" and g': "g' = reinitArrays g4"
    by (auto simp: constructInitByNodes_def Let_def case_prod_beta s1_def[symmetric] col
        s2_def[symmetric] split: option.splits)
  have lv: "int (length nodeList) < 536870912" "int (length es) < 536870912"
    using assms(2,3) by (simp_all add: es_def)
  have t1: "tables (fst s1) = tables (?g0\<lparr> m_nodeIdCount := int (length nodeList) \<rparr>)"
    unfolding s1_def
    using fold_bumpN[where f = "byNodes_node G" and s = "(?g0, mn, [])" and xs = nodeList,
        OF node_steps(3)] lv by simp
  then have c1: "m_edgeIdCount (fst s1) = 0" by (simp add: tables_def)
  have t2: "tables (fst s2) = tables ((fst s1)\<lparr> m_edgeIdCount := int (length es) \<rparr>)"
    unfolding s2_def
    using fold_bumpE[where f = "copy_edge G (fst (snd s1))" and s = "(fst s1, me)" and xs = es,
        OF edge_steps(1)] lv c1 by simp
  from foldOpt_frame[where T = "\<lambda>s. tables (fst s)", OF copy_rotation_frame g3]
  have "tables g3 = tables (fst s2)" by simp
  with t1 t2 have t: "tables g3 = tables (?g0\<lparr> m_nodeIdCount := int (length nodeList),
      m_edgeIdCount := int (length es) \<rparr>)"
    by (simp add: tables_def)
  from sized_after[OF t _ lv(1) _ lv(2)] g4 show ?thesis
    unfolding g' by (intro tb_sized) simp_all
qed

lemma tb_constructInitByActiveNodes:
  assumes "constructInitByActiveNodes G nodeList act mn me g = Some (g', mn', me')"
    and "int (length nodeList) < 536870912"
    and "int (length (concat (map (activeEvenEdges G act) nodeList))) < 536870912"
  shows "tableBounds g' \<and> sizesInRange g'
     \<and> tableExceeds MIN_NODE_TABLE_SIZE (m_nodeIdCount g') (m_nodeArrayTableSize g')
     \<and> tableExceeds MIN_EDGE_TABLE_SIZE (m_edgeIdCount g') (m_edgeArrayTableSize g')"
proof -
  let ?g0 = "(dropElements g)\<lparr> m_nodeArrayTableSize := MIN_NODE_TABLE_SIZE \<rparr>"
  define s1 where "s1 = fold (byActive_node G act) nodeList (?g0, mn, [])"
  define es where "es = concat (map (activeEvenEdges G act) nodeList)"
  have col: "snd (snd s1) = es" unfolding s1_def es_def by (simp add: byActive_collected)
  define s2 where "s2 = fold (byActive_edge G (fst (snd s1))) es (fst s1, me)"
  from assms(1) obtain g3 where
    g3: "setTableSizes (fst s2) = Some g3" and g': "g' = reinitArrays g3"
    by (auto simp: constructInitByActiveNodes_def Let_def case_prod_beta s1_def[symmetric] col
        s2_def[symmetric] split: option.splits)
  have lv: "int (length nodeList) < 536870912" "int (length es) < 536870912"
    using assms(2,3) by (simp_all add: es_def)
  have t1: "tables (fst s1) = tables (?g0\<lparr> m_nodeIdCount := int (length nodeList) \<rparr>)"
    unfolding s1_def
    using fold_bumpN[where f = "byActive_node G act" and s = "(?g0, mn, [])" and xs = nodeList,
        OF node_steps(4)] lv by simp
  then have c1: "m_edgeIdCount (fst s1) = 0" by (simp add: tables_def)
  have t2: "tables (fst s2) = tables ((fst s1)\<lparr> m_edgeIdCount := int (length es) \<rparr>)"
    unfolding s2_def
    using fold_bumpE[where f = "byActive_edge G (fst (snd s1))" and s = "(fst s1, me)" and xs = es,
        OF edge_steps(3)] lv c1 by simp
  from t1 t2 have t: "tables (fst s2) = tables (?g0\<lparr> m_nodeIdCount := int (length nodeList),
      m_edgeIdCount := int (length es) \<rparr>)"
    by (simp add: tables_def)
  from sized_after[OF t _ lv(1) _ lv(2)] g3 show ?thesis
    unfolding g' by (intro tb_sized) simp_all
qed

lemma tb_copyConstructor:
  assumes "copyConstructor G = Some g'"
    and "int (length (nodes G)) < 536870912" "int (length (edges G)) < 536870912"
  shows "tableBounds g' \<and> sizesInRange g'
     \<and> tableExceeds MIN_NODE_TABLE_SIZE (m_nodeIdCount g') (m_nodeArrayTableSize g')
     \<and> tableExceeds MIN_EDGE_TABLE_SIZE (m_edgeIdCount g') (m_edgeArrayTableSize g')"
proof -
  from assms(1) obtain g1 mn' me' where
    g1: "copy G (\<lambda>_. nullptr) (\<lambda>_. nullptr) emptyGraph = Some (g1, mn', me')"
    and g': "setTableSizes g1 = Some g'"
    by (auto simp: copyConstructor_def split: option.splits)
  have e: "m_nodeIdCount emptyGraph = 0" "m_edgeIdCount emptyGraph = 0"
    "m_regNodeArrays emptyGraph = []" "m_regEdgeArrays emptyGraph = []"
    "m_regAdjArrays emptyGraph = []"
    by (simp_all add: emptyGraph_def)
  from copy_tables[OF g1] assms(2,3) e obtain n m where
    t: "tables g1 = tables (emptyGraph\<lparr> m_nodeIdCount := n, m_edgeIdCount := m \<rparr>)"
    and b: "0 \<le> n" "n < 536870912" "0 \<le> m" "m < 536870912"
    by auto
  from sized_after[OF t b] g' e show ?thesis
    by (auto intro: tb_sized_noArrays)
qed

lemma tb_runPublicOp:
  assumes "tableBounds g" "inRange g" "publicOpValid g op" "runPublicOp op g = Some g'"
  shows "tableBounds g' \<and> sizesInRange g'"
proof -
  have r: "tableBounds g \<and> sizesInRange g" using assms(1,2) by (simp add: inRange_def)
  note d = inRangeD[OF assms(2)]
  show ?thesis
  proof (cases op)
    case (Edit eop)
    then show ?thesis using assms tb_runOp[OF assms(1,2)] by auto
  next
    case (CreateEdgeElement v w a1 a2)
    then show ?thesis using assms(4) tb_edgeStep[OF assms(1) _ _ refl] d by auto
  next
    case (NewEdgeAdj a1 a2 dir)
    then show ?thesis using assms(4) tb_edgeStep[OF assms(1) _ _ newEdge_adj_tables] d by auto
  next
    case (NewEdgeNodeAdj v a)
    then show ?thesis using assms(4) tb_edgeStep[OF assms(1) _ _ newEdge_nodeAdj_tables] d by auto
  next
    case (NewEdgeAdjNode a v)
    then show ?thesis using assms(4) tb_edgeStep[OF assms(1) _ _ newEdge_adjNode_tables] d by auto
  next
    case (Move e a1 d1 a2 d2)
    then show ?thesis using assms(4) r tb_frame[OF tables_move] by (auto split: sum.splits)
  next
    case (MoveTargetNode e v)
    then show ?thesis using assms(4) r tb_frame[OF tables_positional(1)] by auto
  next
    case (MoveSourceNode e v)
    then show ?thesis using assms(4) r tb_frame[OF tables_positional(2)] by auto
  next
    case (MoveAdj a w)
    then show ?thesis using assms(4) r tb_frame[OF tables_positional(3)] by auto
  next
    case (SplitNode a1 a2)
    with assms(4) obtain x where s: "splitNode a1 a2 g = Some (Inr (g', x))"
      by (auto split: option.splits sum.splits)
    have 1: "tableBounds (fst (newNode g)) \<and> sizesInRange (fst (newNode g))"
      using tb_nodeStep[OF assms(1) _ _ refl] d by auto
    show ?thesis
      using tb_edgeStep[OF _ _ _ splitNode_tables[OF s]] 1 d by simp
  next
    case (UnsplitNode u)
    then show ?thesis using assms(4) r tb_frame[OF tables_unsplit_node]
      by (auto split: option.splits sum.splits)
  next
    case ReverseAllEdges
    then show ?thesis using assms(4) r tb_frame[OF tables_positional(4)] by auto
  next
    case ReverseAdjEdges
    then show ?thesis using assms(4) r tb_frame[OF tables_positional(5)] by auto
  next
    case Clear
    then show ?thesis using assms(4) tb_clear[OF r] by auto
  next
    case (OperatorAssign src)
    with assms(4) obtain mn' me' where
      "assign src (\<lambda>_. nullptr) (\<lambda>_. nullptr) g = Some (g', mn', me')"
      by (auto simp: operator_assign_def)
    from tb_assign[OF this] assms(3) OperatorAssign show ?thesis by simp
  next
    case (Assign src mn me)
    with assms(4) obtain mn' me' where "assign src mn me g = Some (g', mn', me')" by auto
    from tb_assign[OF this] assms(3) Assign show ?thesis by simp
  next
    case (Construct src mn me)
    with assms(4) obtain mn' me' where "construct src mn me g = Some (g', mn', me')" by auto
    from tb_construct[OF this _ assms(1,2)] assms(3) Construct show ?thesis by simp
  next
    case (ConstructInitByCC G info cc mn me)
    with assms(4) obtain mn' me' where
      "constructInitByCC G info cc mn me g = Some (g', mn', me')" by auto
    from tb_constructInitByCC[OF this] assms(3) ConstructInitByCC show ?thesis by simp
  next
    case (ConstructInitByNodes G nodeList mn me)
    with assms(4) obtain mn' me' where
      "constructInitByNodes G nodeList mn me g = Some (g', mn', me')" by auto
    from tb_constructInitByNodes[OF this] assms(3) ConstructInitByNodes show ?thesis by simp
  next
    case (ConstructInitByActiveNodes G nodeList act mn me)
    with assms(4) obtain mn' me' where
      "constructInitByActiveNodes G nodeList act mn me g = Some (g', mn', me')" by auto
    from tb_constructInitByActiveNodes[OF this] assms(3) ConstructInitByActiveNodes
    show ?thesis by simp
  next
    case (UnregisterNodeArray it)
    then show ?thesis using assms(4) tb_registry(1)[OF r] by auto
  next
    case (UnregisterEdgeArray it)
    then show ?thesis using assms(4) tb_registry(2)[OF r] by auto
  next
    case (UnregisterAdjArray it)
    then show ?thesis using assms(4) tb_registry(3)[OF r] by auto
  next
    case (UnregisterStructure it)
    then show ?thesis using assms(4) r tb_frame[OF tables_positional(7)] by auto
  next
    case (MoveRegisterNodeArray it a)
    then show ?thesis using assms(3,4) tb_registry(4)[OF r] by auto
  next
    case (MoveRegisterEdgeArray it a)
    then show ?thesis using assms(3,4) tb_registry(5)[OF r] by auto
  next
    case (MoveRegisterAdjArray it a)
    then show ?thesis using assms(3,4) tb_registry(6)[OF r] by auto
  next
    case ReinitArrays
    have "tableCovers MIN_NODE_TABLE_SIZE (m_nodeIdCount g) (m_nodeArrayTableSize g)"
      "tableCovers MIN_EDGE_TABLE_SIZE (m_edgeIdCount g) (m_edgeArrayTableSize g)"
      using assms(1) by (simp_all add: tableBounds_def)
    from tb_reinitArrays[OF this] r ReinitArrays assms(4) show ?thesis by auto
  next
    case ReinitStructures
    then show ?thesis using assms(4) r tb_frame[OF tables_positional(6)] by auto
  next
    case (ResetAdjEntryIndex n o')
    then show ?thesis using assms(4) r tb_frame[OF tables_resetAdjEntryIndex] by auto
  next
    case (ResetEdgeIdCount checks maxId)
    then show ?thesis using assms(3,4) tb_resetEdgeIdCount[OF r]
      by (auto split: sum.splits)
  next
    case Destroy
    then show ?thesis using assms(4) tb_destroyGraph[OF r] by auto
  qed
qed

lemma exceeds_runPublicOp:
  assumes "tableBounds g" "inRange g" "publicOpValid g op" "runPublicOp op g = Some g'" "isCopy op"
  shows "tableExceeds MIN_NODE_TABLE_SIZE (m_nodeIdCount g') (m_nodeArrayTableSize g')
     \<and> tableExceeds MIN_EDGE_TABLE_SIZE (m_edgeIdCount g') (m_edgeArrayTableSize g')"
proof (cases op)
  case (OperatorAssign src)
  with assms(4) obtain mn' me' where
    "assign src (\<lambda>_. nullptr) (\<lambda>_. nullptr) g = Some (g', mn', me')"
    by (auto simp: operator_assign_def)
  from tb_assign[OF this] assms(3) OperatorAssign show ?thesis by simp
next
  case (Assign src mn me)
  with assms(4) obtain mn' me' where "assign src mn me g = Some (g', mn', me')" by auto
  from tb_assign[OF this] assms(3) Assign show ?thesis by simp
next
  case (Construct src mn me)
  with assms(4) obtain mn' me' where "construct src mn me g = Some (g', mn', me')" by auto
  from tb_construct[OF this _ assms(1,2)] assms(3) Construct show ?thesis by simp
next
  case (ConstructInitByCC G info cc mn me)
  with assms(4) obtain mn' me' where
    "constructInitByCC G info cc mn me g = Some (g', mn', me')" by auto
  from tb_constructInitByCC[OF this] assms(3) ConstructInitByCC show ?thesis by simp
next
  case (ConstructInitByNodes G nodeList mn me)
  with assms(4) obtain mn' me' where
    "constructInitByNodes G nodeList mn me g = Some (g', mn', me')" by auto
  from tb_constructInitByNodes[OF this] assms(3) ConstructInitByNodes show ?thesis by simp
next
  case (ConstructInitByActiveNodes G nodeList act mn me)
  with assms(4) obtain mn' me' where
    "constructInitByActiveNodes G nodeList act mn me g = Some (g', mn', me')" by auto
  from tb_constructInitByActiveNodes[OF this] assms(3) ConstructInitByActiveNodes
  show ?thesis by simp
qed (use assms(5) in simp_all)

lemma newNodes_edges: "edges (newNodes k g) = edges g"
proof (induction k)
  case 0
  show ?case by (simp add: newNodes_def)
next
  case (Suc k)
  then show ?case by (simp add: newNodes_Suc newNode_fields)
qed

lemma nextPower2_16:
  "nextPower2 16 16 = Some 32" "nextPower2 16 0 = Some 16"
proof -
  have s: "shl1 16 = 32" by (simp add: shl1_def int32_def)
  have "nextPower2 32 16 = Some 32" by (subst nextPower2.simps) simp
  then show "nextPower2 16 16 = Some 32" using s by (subst nextPower2.simps) simp
  show "nextPower2 16 0 = Some 16" by (subst nextPower2.simps) simp
qed

lemma copy_sixteen:
  "\<exists>g' mn' me'. copy (newNodes 16 emptyGraph) mn me emptyGraph = Some (g', mn', me')
     \<and> tables g' = tables (emptyGraph\<lparr> m_nodeIdCount := 16 \<rparr>)"
proof -
  let ?G = "newNodes 16 emptyGraph"
  have l: "length (nodes ?G) = 16" "edges ?G = []"
    using newNodes_below[of 16 "[]"]
    by (simp_all add: freshWithArrays_def newNodes_edges emptyGraph_def)
  then have ne: "nodes ?G \<noteq> []" by auto
  have "tables (fst (fold (copy_node ?G) (nodes ?G) (emptyGraph, (\<lambda>_. nullptr)))) =
      tables (emptyGraph\<lparr> m_nodeIdCount := 16 \<rparr>)"
    using fold_bumpN[where f = "copy_node ?G" and s = "(emptyGraph, (\<lambda>_. nullptr))"
        and xs = "nodes ?G", OF node_steps(1)] l(1)
    by (simp add: emptyGraph_def)
  then show ?thesis
    using ne l(2) by (simp add: copy_def Let_def case_prod_beta)
qed

lemma clear_emptyGraph: "clear emptyGraph = emptyGraph"
  by (simp add: clear_def dropElements_def reinitArrays_def Let_def emptyGraph_def
      MIN_NODE_TABLE_SIZE_def)

lemma copy_of_sixteen:
  "\<exists>h. copyConstructor (newNodes 16 emptyGraph) = Some h
     \<and> m_nodeIdCount h = 16 \<and> m_nodeArrayTableSize h = 32"
  "\<exists>g'. runPublicOp (OperatorAssign (Some (newNodes 16 emptyGraph))) emptyGraph = Some g'
     \<and> m_nodeIdCount g' = 16 \<and> m_nodeArrayTableSize g' = 32"
proof -
  from copy_sixteen[of "\<lambda>_. nullptr" "\<lambda>_. nullptr"] obtain g1 mn' me' where
    c: "copy (newNodes 16 emptyGraph) (\<lambda>_. nullptr) (\<lambda>_. nullptr) emptyGraph = Some (g1, mn', me')"
    and t: "tables g1 = tables (emptyGraph\<lparr> m_nodeIdCount := 16 \<rparr>)" by blast
  have f: "m_nodeIdCount g1 = 16" "m_edgeIdCount g1 = 0"
    using t by (simp_all add: tables_def emptyGraph_def)
  have s: "setTableSizes g1 = Some (g1\<lparr> m_nodeArrayTableSize := 32, m_edgeArrayTableSize := 16 \<rparr>)"
    by (simp add: setTableSizes_def f nextPower2_16 MIN_NODE_TABLE_SIZE_def MIN_EDGE_TABLE_SIZE_def)
  show "\<exists>h. copyConstructor (newNodes 16 emptyGraph) = Some h
     \<and> m_nodeIdCount h = 16 \<and> m_nodeArrayTableSize h = 32"
    using c s f by (simp add: copyConstructor_def)
  show "\<exists>g'. runPublicOp (OperatorAssign (Some (newNodes 16 emptyGraph))) emptyGraph = Some g'
     \<and> m_nodeIdCount g' = 16 \<and> m_nodeArrayTableSize g' = 32"
    using c s f by (simp add: operator_assign_def assign_def clear_emptyGraph)
qed

lemma newNodes_edgeIdCount: "m_edgeIdCount (newNodes k g) = m_edgeIdCount g"
proof (induction k)
  case 0
  show ?case by (simp add: newNodes_def)
next
  case (Suc k)
  then show ?case by (simp add: newNodes_Suc)
qed

lemma newNodes_regs:
  "m_regEdgeArrays (newNodes k g) = m_regEdgeArrays g \<and> m_regAdjArrays (newNodes k g) = m_regAdjArrays g
   \<and> m_edgeArrayTableSize (newNodes k g) = m_edgeArrayTableSize g"
proof (induction k)
  case 0
  show ?case by (simp add: newNodes_def)
next
  case (Suc k)
  have "tables (fst (newNode (newNodes k g))) = tables (fst (newNode (newNodes k g)))" ..
  then show ?case using Suc newNode_tables[of "newNodes k g"]
    by (simp add: newNodes_Suc tables_def split: if_splits)
qed

lemma construct_stale_array:
  "\<exists>g'. runPublicOp (Construct (Some emptyGraph) mn me) (newNodes 16 (freshWithArrays [7])) = Some g'
     \<and> m_regNodeArrays g' = [7] \<and> m_nodeArrayTableSize g' = 32
     \<and> a_size (arrMem g' NodeArrayKind 7) = 16"
proof -
  let ?g = "newNodes 16 (freshWithArrays [7])"
  have f: "m_nodeIdCount ?g = 16" "m_regNodeArrays ?g = [7]" "a_size (arrMem ?g NodeArrayKind 7) = 16"
    using newNodes_below[of 16 "[7]"] by simp_all
  have "m_edgeIdCount (freshWithArrays [7]) = 0"
    by (simp add: freshWithArrays_def registerNodeArray_def updArray_def emptyGraph_def)
  then have e: "m_edgeIdCount ?g = 0" by (simp add: newNodes_edgeIdCount)
  have c: "copy emptyGraph mn me ?g = Some (?g, mn, me)"
    by (simp add: copy_def emptyGraph_def)
  have s: "setTableSizes ?g = Some (?g\<lparr> m_nodeArrayTableSize := 32, m_edgeArrayTableSize := 16 \<rparr>)"
    by (simp add: setTableSizes_def f e nextPower2_16 MIN_NODE_TABLE_SIZE_def MIN_EDGE_TABLE_SIZE_def)
  show ?thesis using c s f by (simp add: construct_def)
qed

text \<open>
  Claim C3, as the code has it. A table size covers an id count when it is a power of
  two, at least 16 and at least the id count. The empty graph has table sizes that cover
  its id counts, and every function of the source file that changes a graph keeps this,
  together with the capacities of the registered arrays (at least the table size, for an
  adjacency-entry array at least twice the edge table size), while the id counts stay
  below \<open>2^29\<close> and the arguments are valid: an array moved into a registry has the
  capacity of the table, \<open>resetEdgeIdCount\<close> lowers the id count, and \<open>construct\<close> meets
  no registered array. \<open>construct\<close> does not reinitialise the arrays: called on a graph
  with 16 nodes and a registered node array it sets the node table size to 32 and leaves
  the array with its capacity 16. How tight a table is depends on the operation. The
  copying operations (\<open>operator=\<close>, \<open>assign\<close>, \<open>construct\<close>, the three \<open>constructInitBy\<close>
  functions and the copy constructor) assign \<open>nextPower2\<close> of the id count: the smallest
  power of two, at least 16, that exceeds the id count; the copy of a graph with 16 nodes
  has table size 32. The edit operations double a table only when the id count has
  reached the table size: from the empty graph they keep the table size the smallest
  power of two that is at least 16 and at least the id count. \<open>clear\<close> sets the node table
  size to 16 and leaves the edge table size as it is. On a fresh graph with registered
  node arrays, the table size is 16 after each of the first 16 calls of \<open>newNode\<close> and 32
  after the 17th; the calls made on the arrays during the 17 insertions are one
  \<open>enlargeTable(32)\<close> for each registered array, each made while the graph has 16 nodes,
  before the 17th node is created.
\<close>

theorem table_growth_protocol:
  "tableBounds emptyGraph \<and> inRange emptyGraph
   \<and> (tableBounds g \<and> inRange g \<and> publicOpValid g op \<and> runPublicOp op g = Some g'
        \<longrightarrow> tableBounds g' \<and> sizesInRange g'
            \<and> (isCopy op \<longrightarrow>
                 tableExceeds MIN_NODE_TABLE_SIZE (m_nodeIdCount g') (m_nodeArrayTableSize g')
                 \<and> tableExceeds MIN_EDGE_TABLE_SIZE (m_edgeIdCount g') (m_edgeArrayTableSize g')))
   \<and> (int (length (nodes G)) < 536870912 \<and> int (length (edges G)) < 536870912
        \<and> copyConstructor G = Some h
        \<longrightarrow> tableBounds h \<and> sizesInRange h
            \<and> tableExceeds MIN_NODE_TABLE_SIZE (m_nodeIdCount h) (m_nodeArrayTableSize h)
            \<and> tableExceeds MIN_EDGE_TABLE_SIZE (m_edgeIdCount h) (m_edgeArrayTableSize h))
   \<and> (\<exists>h. copyConstructor (newNodes 16 emptyGraph) = Some h
          \<and> m_nodeIdCount h = 16 \<and> m_nodeArrayTableSize h = 32)
   \<and> (\<exists>g'. runPublicOp (Construct (Some emptyGraph) mapNode mapEdge)
                 (newNodes 16 (freshWithArrays [7])) = Some g'
          \<and> m_regNodeArrays g' = [7] \<and> m_nodeArrayTableSize g' = 32
          \<and> a_size (arrMem g' NodeArrayKind 7) = 16)
   \<and> (tableInv g \<and> m_nodeIdCount g < 536870912 \<and> m_edgeIdCount g < 536870912
        \<and> indexInRange eop \<and> runOp eop g = Some g'' \<longrightarrow> tableInv g'')
   \<and> tableInv emptyGraph
   \<and> m_nodeIdCount (clear g) = 0 \<and> m_edgeIdCount (clear g) = 0
   \<and> m_nodeArrayTableSize (clear g) = MIN_NODE_TABLE_SIZE
   \<and> m_edgeArrayTableSize (clear g) = m_edgeArrayTableSize g
   \<and> (\<forall>k \<le> 16. m_nodeArrayTableSize (newNodes k (freshWithArrays as)) = 16)
   \<and> m_nodeArrayTableSize (newNodes 17 (freshWithArrays as)) = 32
   \<and> (\<forall>a \<in> set as. a_size (arrMem (newNodes 17 (freshWithArrays as)) NodeArrayKind a) = 32)
   \<and> calls (newNodes 17 (freshWithArrays as)) =
        map (\<lambda>a. (enlargeTableCall NodeArrayKind a 32, snapshot (newNodes 16 (freshWithArrays as)))) as
   \<and> length (nodes (newNodes 16 (freshWithArrays as))) = 16
   \<and> length (nodes (newNodes 17 (freshWithArrays as))) = 17"
proof -
  have 1: "tableBounds g \<and> inRange g \<and> publicOpValid g op \<and> runPublicOp op g = Some g'
        \<longrightarrow> tableBounds g' \<and> sizesInRange g'
            \<and> (isCopy op \<longrightarrow>
                 tableExceeds MIN_NODE_TABLE_SIZE (m_nodeIdCount g') (m_nodeArrayTableSize g')
                 \<and> tableExceeds MIN_EDGE_TABLE_SIZE (m_edgeIdCount g') (m_edgeArrayTableSize g'))"
    using tb_runPublicOp[of g op g'] exceeds_runPublicOp[of g op g'] by blast
  have 2: "int (length (nodes G)) < 536870912 \<and> int (length (edges G)) < 536870912
        \<and> copyConstructor G = Some h
        \<longrightarrow> tableBounds h \<and> sizesInRange h
            \<and> tableExceeds MIN_NODE_TABLE_SIZE (m_nodeIdCount h) (m_nodeArrayTableSize h)
            \<and> tableExceeds MIN_EDGE_TABLE_SIZE (m_edgeIdCount h) (m_edgeArrayTableSize h)"
    using tb_copyConstructor[of G h] by blast
  have 3: "tableInv g \<and> m_nodeIdCount g < 536870912 \<and> m_edgeIdCount g < 536870912
        \<and> indexInRange eop \<and> runOp eop g = Some g'' \<longrightarrow> tableInv g''"
    using tableInv_runOp[of g eop g''] by blast
  show ?thesis
    apply (intro conjI)
    using tableBounds_emptyGraph apply simp
    using tableBounds_emptyGraph apply simp
    apply (rule 1)
    apply (rule 2)
    apply (rule copy_of_sixteen(1))
    apply (rule construct_stale_array)
    apply (rule 3)
    apply (rule tableInv_emptyGraph)
    apply (simp_all only: clear_fields)
    using seventeen_nodes[of as] apply blast+
    done
qed

theorem table_growth_protocol_witness:
  "tableBounds emptyGraph \<and> inRange emptyGraph
   \<and> publicOpValid emptyGraph (OperatorAssign (Some (newNodes 16 emptyGraph)))
   \<and> isCopy (OperatorAssign (Some (newNodes 16 emptyGraph)))
   \<and> (\<exists>g'. runPublicOp (OperatorAssign (Some (newNodes 16 emptyGraph))) emptyGraph = Some g'
          \<and> tableBounds g' \<and> sizesInRange g'
          \<and> m_nodeIdCount g' = 16 \<and> m_nodeArrayTableSize g' = 32
          \<and> tableExceeds MIN_NODE_TABLE_SIZE 16 32)
   \<and> int (length (nodes (newNodes 16 emptyGraph))) < 536870912
   \<and> int (length (edges (newNodes 16 emptyGraph))) < 536870912
   \<and> (\<exists>h. copyConstructor (newNodes 16 emptyGraph) = Some h
          \<and> tableBounds h \<and> sizesInRange h
          \<and> m_nodeIdCount h = 16 \<and> m_nodeArrayTableSize h = 32)
   \<and> tableInv emptyGraph \<and> m_nodeIdCount emptyGraph < 536870912
   \<and> m_edgeIdCount emptyGraph < 536870912 \<and> indexInRange NewNode
   \<and> runOp NewNode emptyGraph = Some (fst (newNode emptyGraph))
   \<and> tableInv (fst (newNode emptyGraph))
   \<and> m_nodeArrayTableSize (newNodes 17 (freshWithArrays [7])) = 32
   \<and> a_size (arrMem (newNodes 17 (freshWithArrays [7])) NodeArrayKind 7) = 32
   \<and> calls (newNodes 17 (freshWithArrays [7])) =
        [(enlargeTableCall NodeArrayKind 7 32, snapshot (newNodes 16 (freshWithArrays [7])))]"
proof -
  let ?G = "newNodes 16 emptyGraph"
  have l: "length (nodes ?G) = 16" "edges ?G = []"
    using newNodes_below[of 16 "[]"]
    by (simp_all add: freshWithArrays_def newNodes_edges emptyGraph_def)
  from copy_of_sixteen(2) obtain g' where
    g': "runPublicOp (OperatorAssign (Some ?G)) emptyGraph = Some g'"
        "m_nodeIdCount g' = 16" "m_nodeArrayTableSize g' = 32" by blast
  from copy_of_sixteen(1) obtain h where
    h: "copyConstructor ?G = Some h" "m_nodeIdCount h = 16" "m_nodeArrayTableSize h = 32"
    by blast
  note t = table_growth_protocol[where g = emptyGraph and op = "OperatorAssign (Some ?G)"
      and g' = g' and G = ?G and h = h and eop = NewNode and g'' = "fst (newNode emptyGraph)"
      and as = "[7]" and mapNode = "\<lambda>_. nullptr" and mapEdge = "\<lambda>_. nullptr"]
  have e: "m_nodeIdCount emptyGraph = 0" "m_edgeIdCount emptyGraph = 0"
    by (simp_all add: emptyGraph_def)
  from t g' h l e show ?thesis by simp
qed

text \<open>
  The claim as stated fails: after 16 calls of \<open>newNode\<close> on a fresh graph the id count
  is 16 and the table size is still 16, which does not exceed the id count.
\<close>

theorem table_size_not_exceeding:
  "m_nodeIdCount (newNodes 16 emptyGraph) = 16
   \<and> m_nodeArrayTableSize (newNodes 16 emptyGraph) = 16
   \<and> \<not> m_nodeIdCount (newNodes 16 emptyGraph) < m_nodeArrayTableSize (newNodes 16 emptyGraph)"
  using sixteen_nodes by simp

end
